theory Spec2Isabelle
  imports Complex_Main
begin

section \<open>Data model (src/types/index.ts)\<close>

text \<open>
  Timestamps are the millisecond counts returned by \<^verbatim>\<open>Date.now()\<close>; they are modelled
  as integers. Every call of \<^verbatim>\<open>Date.now()\<close> in the source is an explicit argument of the
  model, so that nothing is assumed about how much time passes between two readings.
\<close>

type_synonym timestamp = int

record Article =
  source_id :: "string option"
  source_name :: string
  author :: "string option"
  title :: string
  description :: "string option"
  url :: string
  urlToImage :: "string option"
  publishedAt :: string
  content :: "string option"

record NewsApiResponse =
  status :: string
  totalResults :: int
  articles :: "Article list"

datatype Category =
  General | Business | Technology | Sports | Health | Entertainment | Science

fun categoryName :: "Category \<Rightarrow> string" where
  "categoryName General = ''general''"
| "categoryName Business = ''business''"
| "categoryName Technology = ''technology''"
| "categoryName Sports = ''sports''"
| "categoryName Health = ''health''"
| "categoryName Entertainment = ''entertainment''"
| "categoryName Science = ''science''"

section \<open>Cache layer (src/services/cacheStorage.ts)\<close>

definition CACHE_PREFIX :: string where
  "CACHE_PREFIX = ''@news_cache_''"

definition CACHE_METADATA_KEY :: string where
  "CACHE_METADATA_KEY = ''@news_cache_metadata''"

definition CACHE_EXPIRY_HOURS :: int where
  "CACHE_EXPIRY_HOURS = 24"

text \<open>\<^verbatim>\<open>maxAge = CACHE_EXPIRY_HOURS * 60 * 60 * 1000\<close>, computed in \<^verbatim>\<open>getCachedArticles\<close> and
  in \<^verbatim>\<open>clearExpiredCache\<close>.\<close>

definition maxAge :: int where
  "maxAge = CACHE_EXPIRY_HOURS * 60 * 60 * 1000"

text \<open>The interface \<^verbatim>\<open>CacheMetadata\<close>. Its fields carry the prefix \<open>m_\<close>, after the
  variable \<^verbatim>\<open>m\<close> of the source's lambdas (\<^verbatim>\<open>m => m.key !== key\<close>), because the field names
  \<^verbatim>\<open>timestamp\<close> and \<^verbatim>\<open>category\<close> are used by other interfaces as well.\<close>

record CacheMetadata =
  m_key :: string
  m_timestamp :: timestamp
  m_category :: "string option"
  m_query :: "string option"

record CacheEntry =
  data :: NewsApiResponse
  timestamp :: timestamp

text \<open>
  The part of AsyncStorage the cache layer owns. The value stored under a cache key is
  the JSON text of a \<^verbatim>\<open>CacheEntry\<close>, the value stored under \<^verbatim>\<open>CACHE_METADATA_KEY\<close> is the
  JSON text of a \<^verbatim>\<open>CacheMetadata[]\<close>; the model keeps the decoded values. \<open>items\<close> holds
  the cache entries by key, \<open>metadata\<close> is the slot of \<^verbatim>\<open>CACHE_METADATA_KEY\<close>
  (\<open>None\<close>: the key is not set). The two are separate components: a cache key is never
  \<^verbatim>\<open>CACHE_METADATA_KEY\<close> itself (see \<open>generateCacheKey_not_metadata\<close> for the keys the
  fetch layer builds). Storage calls succeed and stored values decode, so the
  \<^verbatim>\<open>catch\<close> branches of the cache layer, which only log, are not entered.
\<close>

record storage =
  items :: "string \<rightharpoonup> CacheEntry"
  metadata :: "CacheMetadata list option"

datatype cacheType = CategoryType | SearchType

fun cacheTypeName :: "cacheType \<Rightarrow> string" where
  "cacheTypeName CategoryType = ''category''"
| "cacheTypeName SearchType = ''search''"

definition generateCacheKey :: "cacheType \<Rightarrow> string \<Rightarrow> string" where
  "generateCacheKey type val = CACHE_PREFIX @ cacheTypeName type @ ''_'' @ val"

text \<open>\<^verbatim>\<open>getCacheMetadata\<close>: the stored list, or \<^verbatim>\<open>[]\<close> when the key is not set.\<close>

definition getCacheMetadata :: "storage \<Rightarrow> CacheMetadata list" where
  "getCacheMetadata s = (case metadata s of None \<Rightarrow> [] | Some ms \<Rightarrow> ms)"

text \<open>
  \<^verbatim>\<open>cacheArticles(key, data, metadata)\<close>. \<open>now_entry\<close> is the reading of \<^verbatim>\<open>Date.now()\<close> for
  the entry, \<open>now_meta\<close> the later one for the metadata row. The argument \<open>md\<close> has the type
  \<^verbatim>\<open>Omit<CacheMetadata, 'timestamp'>\<close>; \<^verbatim>\<open>{...metadata, timestamp: Date.now()}\<close> copies its
  fields and sets the timestamp, so whatever \<open>m_timestamp md\<close> holds is overwritten.
\<close>

definition cacheArticles ::
  "string \<Rightarrow> NewsApiResponse \<Rightarrow> CacheMetadata \<Rightarrow> timestamp \<Rightarrow> timestamp \<Rightarrow> storage \<Rightarrow> storage" where
  "cacheArticles key dat md now_entry now_meta s =
     (let cacheEntry = \<lparr>data = dat, timestamp = now_entry\<rparr>;
          s1 = s\<lparr>items := (items s)(key \<mapsto> cacheEntry)\<rparr>;
          existingMetadata = getCacheMetadata s1;
          newMetadata = md\<lparr>m_timestamp := now_meta\<rparr>;
          updatedMetadata = newMetadata # filter (\<lambda>m. m_key m \<noteq> key) existingMetadata
      in s1\<lparr>metadata := Some updatedMetadata\<rparr>)"

text \<open>\<^verbatim>\<open>clearCache(key)\<close>: remove the entry, then rewrite the metadata list without the rows
  of that key.\<close>

definition clearCache :: "string \<Rightarrow> storage \<Rightarrow> storage" where
  "clearCache key s =
     (let s1 = s\<lparr>items := (items s)(key := None)\<rparr>;
          updatedMetadata = filter (\<lambda>m. m_key m \<noteq> key) (getCacheMetadata s1)
      in s1\<lparr>metadata := Some updatedMetadata\<rparr>)"

text \<open>\<^verbatim>\<open>getCachedArticles(key)\<close> at time \<open>now\<close>: the payload or \<^verbatim>\<open>null\<close>, and the storage
  after the call (an expired entry is cleared).\<close>

definition getCachedArticles ::
  "string \<Rightarrow> timestamp \<Rightarrow> storage \<Rightarrow> NewsApiResponse option \<times> storage" where
  "getCachedArticles key now s =
     (case items s key of
        None \<Rightarrow> (None, s)
      | Some cacheEntry \<Rightarrow>
          (let age = now - timestamp cacheEntry
           in if age > maxAge then (None, clearCache key s)
              else (Some (data cacheEntry), s)))"

text \<open>\<^verbatim>\<open>clearExpiredCache()\<close> at time \<open>now\<close>: the keys of the expired metadata rows are
  collected first, then \<^verbatim>\<open>clearCache\<close> runs for each of them in turn.\<close>

definition expiredKeys :: "timestamp \<Rightarrow> CacheMetadata list \<Rightarrow> string list" where
  "expiredKeys now ms = map m_key (filter (\<lambda>m. now - m_timestamp m > maxAge) ms)"

definition clearExpiredCache :: "timestamp \<Rightarrow> storage \<Rightarrow> storage" where
  "clearExpiredCache now s = foldl (\<lambda>st key. clearCache key st) s (expiredKeys now (getCacheMetadata s))"

text \<open>\<^verbatim>\<open>clearAllCache()\<close>: remove every indexed entry, then the metadata key itself.\<close>

definition clearAllCache :: "storage \<Rightarrow> storage" where
  "clearAllCache s =
     (foldl (\<lambda>st item. st\<lparr>items := (items st)(m_key item := None)\<rparr>) s (getCacheMetadata s))
       \<lparr>metadata := None\<rparr>"

section \<open>Content fetch layer (newsApi: getTopHeadlines, searchNews)\<close>

text \<open>
  The outcome of the axios request is an argument of the model: \<open>Inr response\<close> when it
  resolves, \<open>Inl error\<close> when it throws. \<open>AxiosError m\<close> is an error for which
  \<^verbatim>\<open>axios.isAxiosError\<close> holds, \<open>m\<close> being \<^verbatim>\<open>error.response?.data?.message\<close> when
  present; \<open>OtherError\<close> is any other exception. A thrown \<^verbatim>\<open>Error(msg)\<close> is \<open>Inl msg\<close> in
  the result.
\<close>

datatype fetchError = AxiosError "string option" | OtherError

text \<open>\<^verbatim>\<open>m || fallback\<close> on an optional string: an absent and an empty message are both
  falsy.\<close>

definition orElse :: "string option \<Rightarrow> string \<Rightarrow> string" where
  "orElse m fallback = (case m of None \<Rightarrow> fallback | Some t \<Rightarrow> if t = [] then fallback else t)"

text \<open>The decimal text a template literal gives to an integral \<^verbatim>\<open>number\<close>
  (\<^verbatim>\<open>`${page}`\<close>).\<close>

fun natToString :: "nat \<Rightarrow> string" where
  "natToString n =
     (if n < 10 then [''0123456789'' ! n]
      else natToString (n div 10) @ [''0123456789'' ! (n mod 10)])"

definition numberToString :: "int \<Rightarrow> string" where
  "numberToString i = (if i < 0 then ''-'' @ natToString (nat (- i)) else natToString (nat i))"

definition getTopHeadlines ::
  "Category \<Rightarrow> int \<Rightarrow> bool \<Rightarrow> fetchError + NewsApiResponse \<Rightarrow>
   timestamp \<Rightarrow> timestamp \<Rightarrow> timestamp \<Rightarrow> timestamp \<Rightarrow> storage \<Rightarrow>
   (string + NewsApiResponse) \<times> storage" where
  "getTopHeadlines category page useCache net now_fresh now_entry now_meta now_stale s =
     (let cacheKey = generateCacheKey CategoryType (categoryName category @ ''_page'' @ numberToString page);
          (cachedData, s1) =
             (if useCache \<and> page = 1 then getCachedArticles cacheKey now_fresh s else (None, s))
      in case cachedData of
           Some d \<Rightarrow> (Inr d, s1)
         | None \<Rightarrow>
            (case net of
               Inr response \<Rightarrow>
                 (Inr response,
                  if page = 1
                  then cacheArticles cacheKey response
                         \<lparr>m_key = cacheKey, m_timestamp = 0,
                          m_category = Some (categoryName category), m_query = None\<rparr>
                         now_entry now_meta s1
                  else s1)
             | Inl error \<Rightarrow>
                 (let (staleData, s2) =
                        (if page = 1 then getCachedArticles cacheKey now_stale s1 else (None, s1))
                  in case staleData of
                       Some d \<Rightarrow> (Inr d, s2)
                     | None \<Rightarrow>
                        (case error of
                           AxiosError m \<Rightarrow>
                             (Inl (orElse m ''Failed to fetch news. Please check your connection.''), s2)
                         | OtherError \<Rightarrow>
                             (Inl ''An unexpected error occurred while fetching news.'', s2)))))"

definition searchNews ::
  "string \<Rightarrow> int \<Rightarrow> bool \<Rightarrow> fetchError + NewsApiResponse \<Rightarrow>
   timestamp \<Rightarrow> timestamp \<Rightarrow> timestamp \<Rightarrow> timestamp \<Rightarrow> storage \<Rightarrow>
   (string + NewsApiResponse) \<times> storage" where
  "searchNews qry page useCache net now_fresh now_entry now_meta now_stale s =
     (let cacheKey = generateCacheKey SearchType (qry @ ''_page'' @ numberToString page);
          (cachedData, s1) =
             (if useCache \<and> page = 1 then getCachedArticles cacheKey now_fresh s else (None, s))
      in case cachedData of
           Some d \<Rightarrow> (Inr d, s1)
         | None \<Rightarrow>
            (case net of
               Inr response \<Rightarrow>
                 (Inr response,
                  if page = 1
                  then cacheArticles cacheKey response
                         \<lparr>m_key = cacheKey, m_timestamp = 0,
                          m_category = None, m_query = Some qry\<rparr>
                         now_entry now_meta s1
                  else s1)
             | Inl error \<Rightarrow>
                 (let (staleData, s2) =
                        (if page = 1 then getCachedArticles cacheKey now_stale s1 else (None, s1))
                  in case staleData of
                       Some d \<Rightarrow> (Inr d, s2)
                     | None \<Rightarrow>
                        (case error of
                           AxiosError m \<Rightarrow>
                             (Inl (orElse m ''Failed to search news. Please check your connection.''), s2)
                         | OtherError \<Rightarrow>
                             (Inl ''An unexpected error occurred while searching.'', s2)))))"

subsection \<open>Sequences of cache operations\<close>

text \<open>The calls a client of the cache layer can make to write and to clear entries, with
  the clock readings of each call.\<close>

datatype cacheOp =
    Put string NewsApiResponse CacheMetadata timestamp timestamp
  | Clear string
  | ClearExpired timestamp

fun applyOp :: "storage \<Rightarrow> cacheOp \<Rightarrow> storage" where
  "applyOp s (Put key dat md now_entry now_meta) = cacheArticles key dat md now_entry now_meta s"
| "applyOp s (Clear key) = clearCache key s"
| "applyOp s (ClearExpired now) = clearExpiredCache now s"

definition runOps :: "cacheOp list \<Rightarrow> storage \<Rightarrow> storage" where
  "runOps ops s = foldl applyOp s ops"

text \<open>\<^verbatim>\<open>cacheArticles\<close> receives the key twice, as its first argument and as
  \<^verbatim>\<open>metadata.key\<close>; both callers in the fetch layer pass the same \<^verbatim>\<open>cacheKey\<close> for the
  two.\<close>

fun keyedConsistently :: "cacheOp \<Rightarrow> bool" where
  "keyedConsistently (Put key dat md now_entry now_meta) = (m_key md = key)"
| "keyedConsistently (Clear key) = True"
| "keyedConsistently (ClearExpired now) = True"

text \<open>The index mirrors the entries: every row of the index names a stored entry, and
  every stored entry has exactly one row.\<close>

definition indexMirrors :: "storage \<Rightarrow> bool" where
  "indexMirrors s =
     ((\<forall>m \<in> set (getCacheMetadata s). items s (m_key m) \<noteq> None) \<and>
      (\<forall>k \<in> dom (items s). length (filter (\<lambda>m. m_key m = k) (getCacheMetadata s)) = 1))"

section \<open>Reading event log (src/services/readingHistoryService.ts)\<close>

definition MAX_HISTORY_ITEMS :: nat where
  "MAX_HISTORY_ITEMS = 100"

record ReadingHistoryItem =
  article :: Article
  readAt :: timestamp
  readingTime :: int
  category :: string
  source :: string

text \<open>The slot of \<^verbatim>\<open>HISTORY_STORAGE_KEY\<close> in AsyncStorage: \<open>None\<close> when the key is not set,
  otherwise the decoded list, most recent event first.\<close>

type_synonym historyStore = "ReadingHistoryItem list option"

definition getHistory :: "historyStore \<Rightarrow> ReadingHistoryItem list" where
  "getHistory hs = (case hs of None \<Rightarrow> [] | Some history \<Rightarrow> history)"

text \<open>\<^verbatim>\<open>Array.prototype.findIndex\<close>: the index of the first element that satisfies the
  predicate, \<open>-1\<close> when there is none.\<close>

fun findIndex :: "('a \<Rightarrow> bool) \<Rightarrow> 'a list \<Rightarrow> int" where
  "findIndex P [] = - 1"
| "findIndex P (x # xs) =
     (if P x then 0 else (let i = findIndex P xs in if i = - 1 then - 1 else i + 1))"

text \<open>\<^verbatim>\<open>history.splice(i, 1)\<close> for an index \<open>i \<ge> 0\<close>: the list without its element at
  position \<open>i\<close>.\<close>

definition spliceOne :: "int \<Rightarrow> 'a list \<Rightarrow> 'a list" where
  "spliceOne i xs = take (nat i) xs @ drop (nat i + 1) xs"

text \<open>\<^verbatim>\<open>addToHistory(article, readingTime, category)\<close> with \<^verbatim>\<open>Date.now() = now\<close>.\<close>

definition addToHistory ::
  "Article \<Rightarrow> int \<Rightarrow> string \<Rightarrow> timestamp \<Rightarrow> historyStore \<Rightarrow> historyStore" where
  "addToHistory art rt cat now hs =
     (let history = getHistory hs;
          existingIndex = findIndex (\<lambda>item. url (article item) = url art) history;
          historyItem = \<lparr>article = art, readAt = now, readingTime = rt, category = cat,
                         source = (if source_name art = [] then ''Unknown'' else source_name art)\<rparr>;
          history1 = (if existingIndex \<noteq> - 1 then spliceOne existingIndex history else history);
          history2 = historyItem # history1;
          history3 = (if length history2 > MAX_HISTORY_ITEMS
                      then take MAX_HISTORY_ITEMS history2 else history2)
      in Some history3)"

definition clearHistory :: "historyStore \<Rightarrow> historyStore" where
  "clearHistory hs = None"

definition removeFromHistory :: "string \<Rightarrow> historyStore \<Rightarrow> historyStore" where
  "removeFromHistory articleUrl hs =
     Some (filter (\<lambda>item. url (article item) \<noteq> articleUrl) (getHistory hs))"

text \<open>The logs the service can hold: the key is written by \<^verbatim>\<open>addToHistory\<close>,
  \<^verbatim>\<open>removeFromHistory\<close> and \<^verbatim>\<open>clearHistory\<close> only, starting from an unset key.\<close>

inductive reachableHistory :: "historyStore \<Rightarrow> bool" where
  unset: "reachableHistory None"
| added: "reachableHistory hs \<Longrightarrow> reachableHistory (addToHistory art rt cat now hs)"
| removed: "reachableHistory hs \<Longrightarrow> reachableHistory (removeFromHistory articleUrl hs)"
| cleared: "reachableHistory hs \<Longrightarrow> reachableHistory (clearHistory hs)"

section \<open>Analytics reducer (getStats and its helpers)\<close>

subsection \<open>Local calendar days\<close>

text \<open>
  \<^verbatim>\<open>getFullYear\<close>, \<^verbatim>\<open>getMonth\<close>, \<^verbatim>\<open>getDate\<close> and \<^verbatim>\<open>getHours\<close> read the local time
  \<open>t + LocalTZA(t)\<close> of a time value \<open>t\<close> (ECMAScript, LocalTime). The zone is an argument
  of the model: \<open>tz t\<close> is the offset of local time from UTC, in milliseconds, in force at
  the instant \<open>t\<close>. The offset may vary with \<open>t\<close>, as it does in a zone with daylight
  saving time.

  A date key \<^verbatim>\<open>YYYY-MM-DD\<close> names one local calendar day, and different days have
  different keys; the model represents the key by the number of that day,
  \<open>(t + tz t) div msPerDay\<close> (ECMAScript, Day(LocalTime(t))). For dates with a four-digit
  year the order of the key strings, which \<^verbatim>\<open>sort()\<close> uses, is the order of the day
  numbers, and \<^verbatim>\<open>new Date(key)\<close> is UTC midnight of that day, so that
  \<^verbatim>\<open>(date1.getTime() - date2.getTime()) / (24 * 60 * 60 * 1000)\<close> is the difference of the
  day numbers.
\<close>

type_synonym zone = "timestamp \<Rightarrow> int"

type_synonym dateKey = int

definition msPerDay :: int where
  "msPerDay = 24 * 60 * 60 * 1000"

definition getDateKey :: "zone \<Rightarrow> timestamp \<Rightarrow> dateKey" where
  "getDateKey tz t = (t + tz t) div msPerDay"

definition getHours :: "zone \<Rightarrow> timestamp \<Rightarrow> nat" where
  "getHours tz t = nat (((t + tz t) mod msPerDay) div (60 * 60 * 1000))"

subsection \<open>Streaks\<close>

text \<open>\<^verbatim>\<open>Array.from(readingDays).sort().reverse()\<close>: the distinct days, latest first.\<close>

definition sortedDays :: "zone \<Rightarrow> ReadingHistoryItem list \<Rightarrow> dateKey list" where
  "sortedDays tz history = rev (sort (remdups (map (\<lambda>item. getDateKey tz (readAt item)) history)))"

text \<open>
  The loop \<^verbatim>\<open>for (let i = 1; i < sortedDays.length; i++)\<close> of the current streak. The
  first argument counts the iterations that remain, \<open>checkDate\<close> is the time value of the
  variable of that name and \<open>currentStreak\<close> the counter; each iteration steps
  \<open>checkDate\<close> back by 24 hours and stops the loop (\<^verbatim>\<open>break\<close>) when the day of the new
  \<open>checkDate\<close> is not among the days.
\<close>

fun currentStreakLoop :: "nat \<Rightarrow> zone \<Rightarrow> dateKey list \<Rightarrow> timestamp \<Rightarrow> nat \<Rightarrow> nat" where
  "currentStreakLoop 0 tz days checkDate currentStreak = currentStreak"
| "currentStreakLoop (Suc n) tz days checkDate currentStreak =
     (let checkDate' = checkDate - msPerDay;
          checkKey = getDateKey tz checkDate'
      in if checkKey \<in> set days
         then currentStreakLoop n tz days checkDate' (currentStreak + 1)
         else currentStreak)"

text \<open>The loop of the longest streak over adjacent pairs of \<^verbatim>\<open>sortedDays\<close>; the result is
  the pair of \<^verbatim>\<open>longestStreak\<close> and \<^verbatim>\<open>tempStreak\<close> when the loop ends.\<close>

fun longestStreakLoop :: "dateKey list \<Rightarrow> nat \<Rightarrow> nat \<Rightarrow> nat \<times> nat" where
  "longestStreakLoop (date1 # date2 # rest) longestStreak tempStreak =
     (let dayDiff = date1 - date2
      in if dayDiff = 1
         then longestStreakLoop (date2 # rest) longestStreak (tempStreak + 1)
         else longestStreakLoop (date2 # rest) (max longestStreak tempStreak) 1)"
| "longestStreakLoop days longestStreak tempStreak = (longestStreak, tempStreak)"

text \<open>\<^verbatim>\<open>calculateStreaks(history)\<close> with the clock at \<open>now\<close>: the pair (current, longest).
  The function runs without awaiting, and its readings of the clock are taken as one
  instant \<open>now\<close>.\<close>

definition calculateStreaks :: "zone \<Rightarrow> timestamp \<Rightarrow> ReadingHistoryItem list \<Rightarrow> nat \<times> nat" where
  "calculateStreaks tz now history =
     (if history = [] then (0, 0)
      else
        (let days = sortedDays tz history;
             today = getDateKey tz now;
             yesterday = getDateKey tz (now - msPerDay);
             currentStreak =
               (if today \<in> set days \<or> yesterday \<in> set days
                then currentStreakLoop (length days - 1) tz days
                       (if today \<in> set days then now else now - msPerDay) 1
                else 0);
             (longestStreak, tempStreak) = longestStreakLoop days 0 1
         in (currentStreak, max longestStreak tempStreak)))"

subsection \<open>Objects used as counting tables\<close>

text \<open>
  \<^verbatim>\<open>categoriesBreakdown\<close> and \<^verbatim>\<open>sourcesBreakdown\<close> are plain objects with string keys. The
  model keeps the own properties of such an object as the list that \<^verbatim>\<open>Object.entries\<close>
  returns: first the keys that are array indices, in ascending numeric order, then the
  other string keys in the order in which they were created (ECMAScript,
  OrdinaryOwnPropertyKeys). An array index is the canonical decimal text of an integer
  from 0 to 4294967294.

  Reading \<^verbatim>\<open>obj[key]\<close> in the source also finds the properties that every object inherits
  from \<^verbatim>\<open>Object.prototype\<close>; \<open>inheritedNames\<close> lists their names. The model describes the
  tables for keys outside that list.
\<close>

type_synonym counts = "(string \<times> nat) list"

definition inheritedNames :: "string list" where
  "inheritedNames =
     [''constructor'', ''hasOwnProperty'', ''isPrototypeOf'', ''propertyIsEnumerable'',
      ''toLocaleString'', ''toString'', ''valueOf'', ''__proto__'',
      ''__defineGetter__'', ''__defineSetter__'', ''__lookupGetter__'', ''__lookupSetter__'']"

primrec indexIn :: "'a \<Rightarrow> 'a list \<Rightarrow> nat" where
  "indexIn x [] = 0"
| "indexIn x (y # ys) = (if x = y then 0 else Suc (indexIn x ys))"

definition isDigit :: "char \<Rightarrow> bool" where
  "isDigit c = (c \<in> set ''0123456789'')"

definition stringToNat :: "string \<Rightarrow> nat" where
  "stringToNat text = foldl (\<lambda>n c. 10 * n + indexIn c ''0123456789'') 0 text"

definition isArrayIndex :: "string \<Rightarrow> bool" where
  "isArrayIndex text =
     (text \<noteq> [] \<and> list_all isDigit text \<and> (length text = 1 \<or> hd text \<noteq> CHR ''0'') \<and>
      stringToNat text < 4294967295)"

text \<open>Creating the property \<open>k\<close>, an array index, in an object that does not have it: it
  goes after the array indices below it.\<close>

fun insertIndexed :: "string \<Rightarrow> nat \<Rightarrow> counts \<Rightarrow> counts" where
  "insertIndexed k v [] = [(k, v)]"
| "insertIndexed k v ((k', v') # rest) =
     (if isArrayIndex k' \<and> stringToNat k' < stringToNat k
      then (k', v') # insertIndexed k v rest
      else (k, v) # (k', v') # rest)"

text \<open>\<^verbatim>\<open>obj[k] = v\<close>: an existing property keeps its place, a new one is created.\<close>

definition setProperty :: "string \<Rightarrow> nat \<Rightarrow> counts \<Rightarrow> counts" where
  "setProperty k v obj =
     (if k \<in> fst ` set obj
      then map (\<lambda>(k', v'). if k' = k then (k', v) else (k', v')) obj
      else if isArrayIndex k then insertIndexed k v obj
      else obj @ [(k, v)])"

text \<open>\<^verbatim>\<open>obj[k] = (obj[k] || 0) + 1\<close>.\<close>

definition increment :: "string \<Rightarrow> counts \<Rightarrow> counts" where
  "increment k obj = setProperty k ((case map_of obj k of None \<Rightarrow> 0 | Some c \<Rightarrow> c) + 1) obj"

text \<open>\<^verbatim>\<open>text || fallback\<close> on a string: the empty string is falsy.\<close>

definition orDefault :: "string \<Rightarrow> string \<Rightarrow> string" where
  "orDefault text fallback = (if text = [] then fallback else text)"

definition categoriesBreakdownOf :: "ReadingHistoryItem list \<Rightarrow> counts" where
  "categoriesBreakdownOf history =
     foldl (\<lambda>obj item. increment (orDefault (category item) ''general'') obj) [] history"

definition sourcesBreakdownOf :: "ReadingHistoryItem list \<Rightarrow> counts" where
  "sourcesBreakdownOf history =
     foldl (\<lambda>obj item. increment (orDefault (source item) ''Unknown'') obj) [] history"

text \<open>
  \<^verbatim>\<open>Object.entries(obj).sort(([, a], [, b]) => b - a)[0]?.[0] || fallback\<close>. The comparator
  orders the entries by descending count, and \<^verbatim>\<open>Array.prototype.sort\<close> is stable, which
  determines the sorted array: it is the stable sort by the key \<open>- count\<close>.
\<close>

definition favoriteOf :: "counts \<Rightarrow> string \<Rightarrow> string" where
  "favoriteOf obj fallback =
     (case sort_key (\<lambda>entry. - int (snd entry)) obj of
        [] \<Rightarrow> fallback
      | entry # _ \<Rightarrow> orDefault (fst entry) fallback)"

subsection \<open>Histograms\<close>

text \<open>\<^verbatim>\<open>readingByDay\<close> has date keys, which are not array indices: its entries are in
  creation order.\<close>

definition setDay :: "dateKey \<Rightarrow> nat \<Rightarrow> (dateKey \<times> nat) list \<Rightarrow> (dateKey \<times> nat) list" where
  "setDay k v obj =
     (if k \<in> fst ` set obj
      then map (\<lambda>(k', v'). if k' = k then (k', v) else (k', v')) obj
      else obj @ [(k, v)])"

definition getReadingByDay :: "zone \<Rightarrow> timestamp \<Rightarrow> ReadingHistoryItem list \<Rightarrow> (dateKey \<times> nat) list" where
  "getReadingByDay tz now history =
     (let sevenDaysAgo = now - 7 * msPerDay;
          counted =
            foldl (\<lambda>obj item.
                     (let dateKey = getDateKey tz (readAt item)
                      in setDay dateKey ((case map_of obj dateKey of None \<Rightarrow> 0 | Some c \<Rightarrow> c) + 1) obj))
              [] (filter (\<lambda>item. readAt item > sevenDaysAgo) history)
      in foldl (\<lambda>obj i.
                  (let k = getDateKey tz (now - int i * msPerDay)
                   in case map_of obj k of
                        None \<Rightarrow> setDay k 0 obj
                      | Some c \<Rightarrow> if c = 0 then setDay k 0 obj else obj))
           counted [0..<7])"

text \<open>\<^verbatim>\<open>readingByHour\<close>: the hours 0 to 23, all present, in ascending order.\<close>

definition getReadingByHour :: "zone \<Rightarrow> ReadingHistoryItem list \<Rightarrow> (nat \<times> nat) list" where
  "getReadingByHour tz history =
     foldl (\<lambda>obj item.
              map (\<lambda>(h, c). if h = getHours tz (readAt item) then (h, c + 1) else (h, c)) obj)
       (map (\<lambda>i. (i, 0)) [0..<24]) history"

subsection \<open>The statistics snapshot\<close>

text \<open>
  \<^verbatim>\<open>totalReadingTime\<close> and \<^verbatim>\<open>averageReadingTime\<close> are results of divisions. The model
  computes with exact rationals; \<open>Some q\<close> is a finite number and \<open>None\<close> stands for what a
  division by zero yields (NaN or an infinity).
\<close>

definition quotient :: "rat \<Rightarrow> rat \<Rightarrow> rat option" where
  "quotient a b = (if b = 0 then None else Some (a / b))"

record ReadingStats =
  totalArticlesRead :: nat
  totalReadingTime :: "rat option"
  averageReadingTime :: "rat option"
  currentStreak :: nat
  longestStreak :: nat
  articlesReadToday :: nat
  articlesReadThisWeek :: nat
  articlesReadThisMonth :: nat
  favoriteCategory :: string
  favoriteSource :: string
  categoriesBreakdown :: counts
  sourcesBreakdown :: counts
  readingByDay :: "(dateKey \<times> nat) list"
  readingByHour :: "(nat \<times> nat) list"

definition getEmptyStats :: ReadingStats where
  "getEmptyStats =
     \<lparr>totalArticlesRead = 0, totalReadingTime = Some 0, averageReadingTime = Some 0,
      currentStreak = 0, longestStreak = 0,
      articlesReadToday = 0, articlesReadThisWeek = 0, articlesReadThisMonth = 0,
      favoriteCategory = ''None'', favoriteSource = ''None'',
      categoriesBreakdown = [], sourcesBreakdown = [],
      readingByDay = [], readingByHour = []\<rparr>"

text \<open>\<^verbatim>\<open>getStats()\<close> on the stored log, with the clock at \<open>now\<close> in the zone \<open>tz\<close>.\<close>

definition getStats :: "zone \<Rightarrow> timestamp \<Rightarrow> historyStore \<Rightarrow> ReadingStats" where
  "getStats tz now hs =
     (let history = getHistory hs
      in if length history = 0 then getEmptyStats
         else
           (let oneDayMs = msPerDay;
                oneWeekMs = 7 * oneDayMs;
                oneMonthMs = 30 * oneDayMs;
                total = quotient (rat_of_int (sum_list (map readingTime history))) 60;
                streaks = calculateStreaks tz now history
            in \<lparr>totalArticlesRead = length history,
                totalReadingTime = total,
                averageReadingTime =
                  (case total of
                     None \<Rightarrow> None
                   | Some minutes \<Rightarrow> quotient minutes (rat_of_nat (length history))),
                currentStreak = fst streaks,
                longestStreak = snd streaks,
                articlesReadToday = length (filter (\<lambda>item. now - readAt item < oneDayMs) history),
                articlesReadThisWeek = length (filter (\<lambda>item. now - readAt item < oneWeekMs) history),
                articlesReadThisMonth = length (filter (\<lambda>item. now - readAt item < oneMonthMs) history),
                favoriteCategory = favoriteOf (categoriesBreakdownOf history) ''general'',
                favoriteSource = favoriteOf (sourcesBreakdownOf history) ''Unknown'',
                categoriesBreakdown = categoriesBreakdownOf history,
                sourcesBreakdown = sourcesBreakdownOf history,
                readingByDay = getReadingByDay tz now history,
                readingByHour = getReadingByHour tz history\<rparr>))"

subsection \<open>Notions used to state the properties of the reducer\<close>

text \<open>The grouping keys of the events, in log order: the category with \<^verbatim>\<open>'general'\<close> for an
  empty one, the source with \<^verbatim>\<open>'Unknown'\<close> for an empty one.\<close>

definition categoryKeys :: "ReadingHistoryItem list \<Rightarrow> string list" where
  "categoryKeys history = map (\<lambda>item. orDefault (category item) ''general'') history"

definition sourceKeys :: "ReadingHistoryItem list \<Rightarrow> string list" where
  "sourceKeys history = map (\<lambda>item. orDefault (source item) ''Unknown'') history"

text \<open>\<open>fav\<close> is a key of the log with the highest count.\<close>

definition mostFrequent :: "string list \<Rightarrow> string \<Rightarrow> bool" where
  "mostFrequent ks fav =
     (fav \<in> set ks \<and> list_all (\<lambda>k. count_list ks k \<le> count_list ks fav) ks)"

text \<open>\<open>fav\<close> is the first key of the log with the highest count: it stands at some position
  \<open>i\<close> of the log, no key has a higher count, and every key before position \<open>i\<close> has a
  lower one.\<close>

definition firstMostFrequent :: "string list \<Rightarrow> string \<Rightarrow> bool" where
  "firstMostFrequent ks fav =
     (\<exists>i<length ks. ks ! i = fav \<and>
        list_all (\<lambda>k. count_list ks k \<le> count_list ks fav) ks \<and>
        list_all (\<lambda>k. count_list ks k < count_list ks fav) (take i ks))"

text \<open>The counting table for a list of keys: \<^verbatim>\<open>forEach\<close> over the log, incrementing.\<close>

definition tally :: "string list \<Rightarrow> counts" where
  "tally ks = foldl (\<lambda>obj k. increment k obj) [] ks"

text \<open>
  A zone in which local time is UTC until 2024-03-31T01:00:00Z (time value 1711846800000)
  and UTC + 1 h from then on, as in Europe/London around the start of summer time in
  2024.
\<close>

definition londonSpring2024 :: zone where
  "londonSpring2024 t = (if t < 1711846800000 then 0 else 3600000)"

text \<open>An event read at time \<open>t\<close>; the other fields do not matter to the streaks.\<close>

definition eventAt :: "timestamp \<Rightarrow> ReadingHistoryItem" where
  "eventAt t =
     \<lparr>article = \<lparr>source_id = None, source_name = ''BBC News'', author = None, title = ''T'',
                 description = None, url = ''https://example.org/a'', urlToImage = None,
                 publishedAt = ''2024-01-01T00:00:00Z'', content = None\<rparr>,
      readAt = t, readingTime = 30, category = ''general'', source = ''BBC News''\<rparr>"

text \<open>An event with the given category and source.\<close>

definition eventOf :: "string \<Rightarrow> string \<Rightarrow> ReadingHistoryItem" where
  "eventOf c src =
     \<lparr>article = \<lparr>source_id = None, source_name = src, author = None, title = ''T'',
                 description = None, url = ''https://example.org/a'', urlToImage = None,
                 publishedAt = ''2024-01-01T00:00:00Z'', content = None\<rparr>,
      readAt = 1000, readingTime = 30, category = c, source = src\<rparr>"

section \<open>Properties\<close>

subsection \<open>Facts about the cache layer\<close>

lemma getCacheMetadata_clearCache:
  "getCacheMetadata (clearCache key s) = filter (\<lambda>m. m_key m \<noteq> key) (getCacheMetadata s)"
  by (simp add: clearCache_def getCacheMetadata_def Let_def)

lemma items_clearCache: "items (clearCache key s) = (items s)(key := None)"
  by (simp add: clearCache_def Let_def)

lemma getCacheMetadata_foldl_clearCache:
  "getCacheMetadata (foldl (\<lambda>st key. clearCache key st) s ks) =
     filter (\<lambda>m. m_key m \<notin> set ks) (getCacheMetadata s)"
proof (induction ks arbitrary: s)
  case Nil
  show ?case by simp
next
  case (Cons k ks)
  have "filter (\<lambda>m. m_key m \<notin> set ks) (filter (\<lambda>m. m_key m \<noteq> k) (getCacheMetadata s)) =
        filter (\<lambda>m. m_key m \<notin> set (k # ks)) (getCacheMetadata s)"
    by (simp add: conj_commute)
  then show ?case
    by (simp add: Cons.IH getCacheMetadata_clearCache)
qed

lemma items_foldl_clearCache:
  "items (foldl (\<lambda>st key. clearCache key st) s ks) = (\<lambda>k. if k \<in> set ks then None else items s k)"
proof (induction ks arbitrary: s)
  case Nil
  show ?case by simp
next
  case (Cons k ks)
  show ?case
    by (auto simp: Cons.IH items_clearCache)
qed

lemma expiredKeys_filter_removed:
  "expiredKeys now (filter (\<lambda>m. m_key m \<notin> set (expiredKeys now ms)) ms) = []"
  by (auto simp: expiredKeys_def filter_empty_conv)

text \<open>
  C8. \<^verbatim>\<open>clearExpiredCache\<close> is idempotent: for every state of the cache store and of the
  index, and a fixed current time, running it a second time leaves the state that the
  first run produced.
\<close>

theorem clearExpiredCache_idempotent:
  "clearExpiredCache now (clearExpiredCache now s) = clearExpiredCache now s"
proof -
  have "expiredKeys now (getCacheMetadata (clearExpiredCache now s)) = []"
    unfolding clearExpiredCache_def getCacheMetadata_foldl_clearCache
    by (rule expiredKeys_filter_removed)
  then show ?thesis
    by (simp add: clearExpiredCache_def)
qed

lemma generateCacheKey_not_metadata: "generateCacheKey type val \<noteq> CACHE_METADATA_KEY"
  by (cases type) (simp_all add: generateCacheKey_def CACHE_PREFIX_def CACHE_METADATA_KEY_def)

lemma maxAge_value: "maxAge = 86400000"
  by (simp add: maxAge_def CACHE_EXPIRY_HOURS_def)

lemma numberToString_1: "numberToString 1 = ''1''"
  by (simp add: numberToString_def)

lemma getCacheMetadata_cacheArticles:
  "getCacheMetadata (cacheArticles key dat md now_entry now_meta s) =
     md\<lparr>m_timestamp := now_meta\<rparr> # filter (\<lambda>m. m_key m \<noteq> key) (getCacheMetadata s)"
  by (simp add: cacheArticles_def getCacheMetadata_def Let_def)

lemma items_cacheArticles:
  "items (cacheArticles key dat md now_entry now_meta s) =
     (items s)(key \<mapsto> \<lparr>data = dat, timestamp = now_entry\<rparr>)"
  by (simp add: cacheArticles_def Let_def)

lemma getCachedArticles_expired:
  "items s key = Some e \<Longrightarrow> maxAge < now - timestamp e \<Longrightarrow>
     getCachedArticles key now s = (None, clearCache key s)"
  by (simp add: getCachedArticles_def Let_def)

lemma getCachedArticles_fresh:
  "items s key = Some e \<Longrightarrow> now - timestamp e \<le> maxAge \<Longrightarrow>
     getCachedArticles key now s = (Some (data e), s)"
  by (simp add: getCachedArticles_def Let_def)

lemma getCachedArticles_absent:
  "items s key = None \<Longrightarrow> getCachedArticles key now s = (None, s)"
  by (simp add: getCachedArticles_def)

subsection \<open>Time to live of a cache entry\<close>

text \<open>
  C2 (as amended). An entry written by \<^verbatim>\<open>cacheArticles\<close> at time \<open>T\<close> (with \<^verbatim>\<open>metadata.key\<close>
  equal to the key) is returned by \<^verbatim>\<open>getCachedArticles\<close> at every time \<open>T' \<le> T + 24h\<close>, the
  storage being left as it is; at every time \<open>T' > T + 24h\<close> the read returns \<^verbatim>\<open>null\<close>,
  and afterwards neither the entry nor a row of the index exists for the key. The entry
  is still served at \<open>T' = T + 24h\<close> exactly: the source tests \<^verbatim>\<open>age > maxAge\<close>.
\<close>

theorem cache_entry_ttl:
  assumes "m_key md = key"
  shows "(T' \<le> T + 86400000 \<longrightarrow>
            getCachedArticles key T' (cacheArticles key dat md T T_meta s) =
              (Some dat, cacheArticles key dat md T T_meta s)) \<and>
         (T + 86400000 < T' \<longrightarrow>
            fst (getCachedArticles key T' (cacheArticles key dat md T T_meta s)) = None \<and>
            items (snd (getCachedArticles key T' (cacheArticles key dat md T T_meta s))) key = None \<and>
            (\<forall>m \<in> set (getCacheMetadata
                        (snd (getCachedArticles key T' (cacheArticles key dat md T T_meta s)))).
               m_key m \<noteq> key))"
proof -
  let ?s = "cacheArticles key dat md T T_meta s"
  have stored: "items ?s key = Some \<lparr>data = dat, timestamp = T\<rparr>"
    by (simp add: items_cacheArticles)
  have fresh: "getCachedArticles key T' ?s = (Some dat, ?s)" if "T' \<le> T + 86400000"
    using getCachedArticles_fresh [OF stored, of T'] that by (simp add: maxAge_value)
  have expired: "getCachedArticles key T' ?s = (None, clearCache key ?s)" if "T + 86400000 < T'"
    using getCachedArticles_expired [OF stored, of T'] that by (simp add: maxAge_value)
  show ?thesis
    using fresh expired
    by (auto simp: items_clearCache getCacheMetadata_clearCache)
qed

theorem cache_entry_ttl_witness:
  "fst (getCachedArticles ''k'' 86400000
          (cacheArticles ''k'' \<lparr>status = ''ok'', totalResults = 0, articles = []\<rparr>
             \<lparr>m_key = ''k'', m_timestamp = 0, m_category = None, m_query = None\<rparr> 0 0
             \<lparr>items = Map.empty, metadata = None\<rparr>))
     = Some \<lparr>status = ''ok'', totalResults = 0, articles = []\<rparr> \<and>
   fst (getCachedArticles ''k'' 86400001
          (cacheArticles ''k'' \<lparr>status = ''ok'', totalResults = 0, articles = []\<rparr>
             \<lparr>m_key = ''k'', m_timestamp = 0, m_category = None, m_query = None\<rparr> 0 0
             \<lparr>items = Map.empty, metadata = None\<rparr>))
     = None \<and>
   items (snd (getCachedArticles ''k'' 86400001
          (cacheArticles ''k'' \<lparr>status = ''ok'', totalResults = 0, articles = []\<rparr>
             \<lparr>m_key = ''k'', m_timestamp = 0, m_category = None, m_query = None\<rparr> 0 0
             \<lparr>items = Map.empty, metadata = None\<rparr>))) ''k'' = None"
  using cache_entry_ttl [of "\<lparr>m_key = ''k'', m_timestamp = 0, m_category = None, m_query = None\<rparr>"
      "''k''" 86400000 0 "\<lparr>status = ''ok'', totalResults = 0, articles = []\<rparr>" 0
      "\<lparr>items = Map.empty, metadata = None\<rparr>"]
    cache_entry_ttl [of "\<lparr>m_key = ''k'', m_timestamp = 0, m_category = None, m_query = None\<rparr>"
      "''k''" 86400001 0 "\<lparr>status = ''ok'', totalResults = 0, articles = []\<rparr>" 0
      "\<lparr>items = Map.empty, metadata = None\<rparr>"]
  by simp

text \<open>The claim as first stated asks for an absent result at \<open>T' = T + 24h\<close>. An entry
  written at time 1000 and read at time 1000 + 86400000 is returned.\<close>

theorem fresh_read_at_ttl_boundary:
  "fst (getCachedArticles ''k'' (1000 + 86400000)
          (cacheArticles ''k'' \<lparr>status = ''ok'', totalResults = 0, articles = []\<rparr>
             \<lparr>m_key = ''k'', m_timestamp = 0, m_category = None, m_query = None\<rparr> 1000 1000
             \<lparr>items = Map.empty, metadata = None\<rparr>))
     = Some \<lparr>status = ''ok'', totalResults = 0, articles = []\<rparr>"
  by (simp add: getCachedArticles_def cacheArticles_def getCacheMetadata_def maxAge_value Let_def)

subsection \<open>Only page 1 takes part in caching\<close>

text \<open>
  C3. For a request with \<open>pageNumber \<ge> 2\<close>, \<^verbatim>\<open>getTopHeadlines\<close> and \<^verbatim>\<open>searchNews\<close> leave the
  storage (cache entries and index) exactly as it was, and their result is the same
  whatever the storage holds (nothing is read from it): this holds for every storage,
  so also when page 1 of the same request is cached, for either value of \<^verbatim>\<open>useCache\<close>,
  and whether the network call succeeds or fails.
\<close>

theorem later_pages_bypass_cache:
  "2 \<le> page \<Longrightarrow>
     snd (getTopHeadlines cat page useCache net t1 t2 t3 t4 s) = s \<and>
     fst (getTopHeadlines cat page useCache net t1 t2 t3 t4 s) =
       fst (getTopHeadlines cat page useCache net t1 t2 t3 t4 s') \<and>
     snd (searchNews qry page useCache net t1 t2 t3 t4 s) = s \<and>
     fst (searchNews qry page useCache net t1 t2 t3 t4 s) =
       fst (searchNews qry page useCache net t1 t2 t3 t4 s')"
  by (simp add: getTopHeadlines_def searchNews_def Let_def split: sum.splits fetchError.splits)

theorem later_pages_bypass_cache_witness:
  "snd (getTopHeadlines General 2 True (Inl OtherError) 5 6 7 8
          \<lparr>items = [''@news_cache_category_general_page1'' \<mapsto>
                      \<lparr>data = \<lparr>status = ''ok'', totalResults = 0, articles = []\<rparr>, timestamp = 1\<rparr>],
           metadata = Some [\<lparr>m_key = ''@news_cache_category_general_page1'', m_timestamp = 1,
                             m_category = Some ''general'', m_query = None\<rparr>]\<rparr>)
     = \<lparr>items = [''@news_cache_category_general_page1'' \<mapsto>
                      \<lparr>data = \<lparr>status = ''ok'', totalResults = 0, articles = []\<rparr>, timestamp = 1\<rparr>],
         metadata = Some [\<lparr>m_key = ''@news_cache_category_general_page1'', m_timestamp = 1,
                           m_category = Some ''general'', m_query = None\<rparr>]\<rparr> \<and>
   snd (searchNews ''climate'' 2 True
          (Inr \<lparr>status = ''ok'', totalResults = 0, articles = []\<rparr>) 5 6 7 8
          \<lparr>items = Map.empty, metadata = None\<rparr>)
     = \<lparr>items = Map.empty, metadata = None\<rparr>"
  using later_pages_bypass_cache [of 2 General True "Inl OtherError" 5 6 7 8
      "\<lparr>items = [''@news_cache_category_general_page1'' \<mapsto>
                      \<lparr>data = \<lparr>status = ''ok'', totalResults = 0, articles = []\<rparr>, timestamp = 1\<rparr>],
         metadata = Some [\<lparr>m_key = ''@news_cache_category_general_page1'', m_timestamp = 1,
                           m_category = Some ''general'', m_query = None\<rparr>]\<rparr>"]
    later_pages_bypass_cache [of 2 General True
      "Inr \<lparr>status = ''ok'', totalResults = 0, articles = []\<rparr>" 5 6 7 8
      "\<lparr>items = Map.empty, metadata = None\<rparr>" _ "''climate''"]
  by simp

subsection \<open>The index mirrors the entries\<close>

lemma filter_other_key:
  "k \<noteq> key \<Longrightarrow>
     filter (\<lambda>m. m_key m \<noteq> key \<and> m_key m = k) ms = filter (\<lambda>m. m_key m = k) ms"
  by (induction ms) auto

lemma filter_same_key: "filter (\<lambda>m. m_key m \<noteq> key \<and> m_key m = key) ms = []"
  by (induction ms) auto

lemma indexMirrors_clearCache: "indexMirrors s \<Longrightarrow> indexMirrors (clearCache key s)"
  unfolding indexMirrors_def getCacheMetadata_clearCache items_clearCache
  by (auto simp: filter_other_key)

lemma indexMirrors_cacheArticles:
  "indexMirrors s \<Longrightarrow> m_key md = key \<Longrightarrow>
     indexMirrors (cacheArticles key dat md now_entry now_meta s)"
  unfolding indexMirrors_def getCacheMetadata_cacheArticles items_cacheArticles
  by (auto simp: filter_other_key filter_same_key)

lemma indexMirrors_foldl_clearCache:
  "indexMirrors s \<Longrightarrow> indexMirrors (foldl (\<lambda>st key. clearCache key st) s ks)"
  by (induction ks arbitrary: s) (simp_all add: indexMirrors_clearCache)

lemma indexMirrors_applyOp:
  "indexMirrors s \<Longrightarrow> keyedConsistently op \<Longrightarrow> indexMirrors (applyOp s op)"
  by (cases op) (simp_all add: indexMirrors_clearCache indexMirrors_cacheArticles
       indexMirrors_foldl_clearCache clearExpiredCache_def)

text \<open>The reads and the requests of the fetch layer keep the index in step with the
  entries as well.\<close>

lemma indexMirrors_getCachedArticles:
  "indexMirrors s \<Longrightarrow> indexMirrors (snd (getCachedArticles key now s))"
  by (simp add: getCachedArticles_def Let_def indexMirrors_clearCache split: option.splits)

lemma indexMirrors_getTopHeadlines:
  "indexMirrors s \<Longrightarrow>
     indexMirrors (snd (getTopHeadlines cat page useCache net now_fresh now_entry now_meta now_stale s))"
  by (auto simp: getTopHeadlines_def Let_def split_beta indexMirrors_getCachedArticles
      indexMirrors_cacheArticles split: option.splits sum.splits fetchError.splits)

lemma indexMirrors_searchNews:
  "indexMirrors s \<Longrightarrow>
     indexMirrors (snd (searchNews qry page useCache net now_fresh now_entry now_meta now_stale s))"
  by (auto simp: searchNews_def Let_def split_beta indexMirrors_getCachedArticles
      indexMirrors_cacheArticles split: option.splits sum.splits fetchError.splits)

text \<open>
  C4. From a state in which the index mirrors the entries, every sequence of
  \<^verbatim>\<open>cacheArticles\<close>, \<^verbatim>\<open>clearCache\<close> and \<^verbatim>\<open>clearExpiredCache\<close> calls (each \<^verbatim>\<open>cacheArticles\<close>
  call passing its key as \<^verbatim>\<open>metadata.key\<close> too, as the fetch layer does) ends in a state
  in which every row of the index names a stored entry and every stored entry has
  exactly one row.
\<close>

theorem index_mirrors_preserved:
  "indexMirrors s \<Longrightarrow> list_all keyedConsistently ops \<Longrightarrow> indexMirrors (runOps ops s)"
  unfolding runOps_def
  by (induction ops arbitrary: s) (simp_all add: indexMirrors_applyOp)

theorem index_mirrors_preserved_witness:
  "indexMirrors \<lparr>items = Map.empty, metadata = None\<rparr> \<and>
   list_all keyedConsistently
     [Put ''a'' \<lparr>status = ''ok'', totalResults = 0, articles = []\<rparr>
        \<lparr>m_key = ''a'', m_timestamp = 0, m_category = None, m_query = Some ''q''\<rparr> 1 2,
      Put ''b'' \<lparr>status = ''ok'', totalResults = 0, articles = []\<rparr>
        \<lparr>m_key = ''b'', m_timestamp = 0, m_category = None, m_query = Some ''r''\<rparr> 90000000 90000001,
      ClearExpired 90000002,
      Clear ''b''] \<and>
   indexMirrors (runOps
     [Put ''a'' \<lparr>status = ''ok'', totalResults = 0, articles = []\<rparr>
        \<lparr>m_key = ''a'', m_timestamp = 0, m_category = None, m_query = Some ''q''\<rparr> 1 2,
      Put ''b'' \<lparr>status = ''ok'', totalResults = 0, articles = []\<rparr>
        \<lparr>m_key = ''b'', m_timestamp = 0, m_category = None, m_query = Some ''r''\<rparr> 90000000 90000001,
      ClearExpired 90000002,
      Clear ''b'']
     \<lparr>items = Map.empty, metadata = None\<rparr>)"
proof -
  have start: "indexMirrors \<lparr>items = Map.empty, metadata = None\<rparr>"
    by (simp add: indexMirrors_def getCacheMetadata_def)
  have keyed: "list_all keyedConsistently
     [Put ''a'' \<lparr>status = ''ok'', totalResults = 0, articles = []\<rparr>
        \<lparr>m_key = ''a'', m_timestamp = 0, m_category = None, m_query = Some ''q''\<rparr> 1 2,
      Put ''b'' \<lparr>status = ''ok'', totalResults = 0, articles = []\<rparr>
        \<lparr>m_key = ''b'', m_timestamp = 0, m_category = None, m_query = Some ''r''\<rparr> 90000000 90000001,
      ClearExpired 90000002,
      Clear ''b'']"
    by simp
  show ?thesis
    using start keyed index_mirrors_preserved [OF start keyed] by simp
qed

subsection \<open>Fallback to the cache when the network fails\<close>

lemma items_clearCache_same: "items (clearCache key s) key = None"
  by (simp add: items_clearCache)

lemma getTopHeadlines_failure_expired:
  assumes "items s (generateCacheKey CategoryType (categoryName cat @ ''_page1'')) = Some e"
    and "maxAge < now_fresh - timestamp e" and "maxAge < now_stale - timestamp e"
  shows "getTopHeadlines cat 1 useCache (Inl error) now_fresh now_entry now_meta now_stale s =
           (Inl (case error of
                   AxiosError m \<Rightarrow> orElse m ''Failed to fetch news. Please check your connection.''
                 | OtherError \<Rightarrow> ''An unexpected error occurred while fetching news.''),
            clearCache (generateCacheKey CategoryType (categoryName cat @ ''_page1'')) s)"
proof (cases useCache)
  case True
  with assms show ?thesis
    by (simp add: getTopHeadlines_def numberToString_1 getCachedArticles_expired
          getCachedArticles_absent items_clearCache_same split: fetchError.splits)
next
  case False
  with assms show ?thesis
    by (simp add: getTopHeadlines_def numberToString_1 getCachedArticles_expired
          split: fetchError.splits)
qed

lemma searchNews_failure_expired:
  assumes "items s (generateCacheKey SearchType (qry @ ''_page1'')) = Some e"
    and "maxAge < now_fresh - timestamp e" and "maxAge < now_stale - timestamp e"
  shows "searchNews qry 1 useCache (Inl error) now_fresh now_entry now_meta now_stale s =
           (Inl (case error of
                   AxiosError m \<Rightarrow> orElse m ''Failed to search news. Please check your connection.''
                 | OtherError \<Rightarrow> ''An unexpected error occurred while searching.''),
            clearCache (generateCacheKey SearchType (qry @ ''_page1'')) s)"
proof (cases useCache)
  case True
  with assms show ?thesis
    by (simp add: searchNews_def numberToString_1 getCachedArticles_expired
          getCachedArticles_absent items_clearCache_same split: fetchError.splits)
next
  case False
  with assms show ?thesis
    by (simp add: searchNews_def numberToString_1 getCachedArticles_expired
          split: fetchError.splits)
qed

lemma getCachedArticles_miss_leaves_no_entry:
  "getCachedArticles key now s = (None, s') \<Longrightarrow> items s' key = None"
  by (auto simp: getCachedArticles_def Let_def items_clearCache split: option.splits if_splits)

text \<open>
  With \<^verbatim>\<open>useCache = true\<close> (the default) the read in the \<^verbatim>\<open>catch\<close> branch never finds
  anything: the request is made only after the first read has missed, and a miss leaves
  no entry under the key. A failed request then always raises.
\<close>

lemma getTopHeadlines_fallback_finds_nothing:
  "fst (getTopHeadlines cat 1 True (Inl error) now_fresh now_entry now_meta now_stale s) =
     (case fst (getCachedArticles (generateCacheKey CategoryType (categoryName cat @ ''_page1''))
                  now_fresh s) of
        Some d \<Rightarrow> Inr d
      | None \<Rightarrow>
          Inl (case error of
                 AxiosError m \<Rightarrow> orElse m ''Failed to fetch news. Please check your connection.''
               | OtherError \<Rightarrow> ''An unexpected error occurred while fetching news.''))"
proof -
  let ?key = "generateCacheKey CategoryType (categoryName cat @ ''_page1'')"
  obtain r s1 where first: "getCachedArticles ?key now_fresh s = (r, s1)"
    by (cases "getCachedArticles ?key now_fresh s")
  show ?thesis
  proof (cases r)
    case None
    with first have "items s1 ?key = None"
      by (simp add: getCachedArticles_miss_leaves_no_entry)
    then have "getCachedArticles ?key now_stale s1 = (None, s1)"
      by (rule getCachedArticles_absent)
    with first None show ?thesis
      by (simp add: getTopHeadlines_def numberToString_1 split: fetchError.splits)
  next
    case (Some d)
    with first show ?thesis
      by (simp add: getTopHeadlines_def numberToString_1)
  qed
qed

lemma searchNews_fallback_finds_nothing:
  "fst (searchNews qry 1 True (Inl error) now_fresh now_entry now_meta now_stale s) =
     (case fst (getCachedArticles (generateCacheKey SearchType (qry @ ''_page1'')) now_fresh s) of
        Some d \<Rightarrow> Inr d
      | None \<Rightarrow>
          Inl (case error of
                 AxiosError m \<Rightarrow> orElse m ''Failed to search news. Please check your connection.''
               | OtherError \<Rightarrow> ''An unexpected error occurred while searching.''))"
proof -
  let ?key = "generateCacheKey SearchType (qry @ ''_page1'')"
  obtain r s1 where first: "getCachedArticles ?key now_fresh s = (r, s1)"
    by (cases "getCachedArticles ?key now_fresh s")
  show ?thesis
  proof (cases r)
    case None
    with first have "items s1 ?key = None"
      by (simp add: getCachedArticles_miss_leaves_no_entry)
    then have "getCachedArticles ?key now_stale s1 = (None, s1)"
      by (rule getCachedArticles_absent)
    with first None show ?thesis
      by (simp add: searchNews_def numberToString_1 split: fetchError.splits)
  next
    case (Some d)
    with first show ?thesis
      by (simp add: searchNews_def numberToString_1)
  qed
qed

text \<open>
  C1. The claim asks that a page-1 request whose network call fails returns the cached
  payload whenever an entry exists under its key, also one older than 24 hours. The
  source reads the cache in its \<^verbatim>\<open>catch\<close> branch with \<^verbatim>\<open>getCachedArticles\<close>, the read that
  enforces the time to live: when the entry under the request's key is older than
  \<open>maxAge\<close>, \<^verbatim>\<open>getTopHeadlines\<close> and \<^verbatim>\<open>searchNews\<close> raise the network error instead of
  returning the entry's payload, and the entry is cleared.
\<close>

theorem expired_entry_raises_on_network_failure:
  assumes "maxAge < now_fresh - timestamp e" and "maxAge < now_stale - timestamp e"
  shows "(items s (generateCacheKey CategoryType (categoryName cat @ ''_page1'')) = Some e \<longrightarrow>
            fst (getTopHeadlines cat 1 useCache (Inl error) now_fresh now_entry now_meta now_stale s) =
              Inl (case error of
                     AxiosError m \<Rightarrow> orElse m ''Failed to fetch news. Please check your connection.''
                   | OtherError \<Rightarrow> ''An unexpected error occurred while fetching news.'') \<and>
            items (snd (getTopHeadlines cat 1 useCache (Inl error)
                          now_fresh now_entry now_meta now_stale s))
              (generateCacheKey CategoryType (categoryName cat @ ''_page1'')) = None) \<and>
         (items s (generateCacheKey SearchType (qry @ ''_page1'')) = Some e \<longrightarrow>
            fst (searchNews qry 1 useCache (Inl error) now_fresh now_entry now_meta now_stale s) =
              Inl (case error of
                     AxiosError m \<Rightarrow> orElse m ''Failed to search news. Please check your connection.''
                   | OtherError \<Rightarrow> ''An unexpected error occurred while searching.'') \<and>
            items (snd (searchNews qry 1 useCache (Inl error)
                          now_fresh now_entry now_meta now_stale s))
              (generateCacheKey SearchType (qry @ ''_page1'')) = None)"
  using assms
  by (simp add: getTopHeadlines_failure_expired searchNews_failure_expired items_clearCache_same)

theorem expired_entry_raises_on_network_failure_witness:
  "fst (getTopHeadlines General 1 True (Inl (AxiosError None))
          86400001 86400001 86400001 86400001
          \<lparr>items = [''@news_cache_category_general_page1'' \<mapsto>
                      \<lparr>data = \<lparr>status = ''ok'', totalResults = 0, articles = []\<rparr>, timestamp = 0\<rparr>],
           metadata = Some [\<lparr>m_key = ''@news_cache_category_general_page1'', m_timestamp = 0,
                             m_category = Some ''general'', m_query = None\<rparr>]\<rparr>)
     = Inl ''Failed to fetch news. Please check your connection.''"
proof -
  let ?e = "\<lparr>data = \<lparr>status = ''ok'', totalResults = 0, articles = []\<rparr>, timestamp = 0\<rparr>"
  have age: "maxAge < 86400001 - timestamp ?e"
    by (simp add: maxAge_value)
  show ?thesis
    using expired_entry_raises_on_network_failure [OF age age,
        of "\<lparr>items = [''@news_cache_category_general_page1'' \<mapsto> ?e],
            metadata = Some [\<lparr>m_key = ''@news_cache_category_general_page1'', m_timestamp = 0,
                              m_category = Some ''general'', m_query = None\<rparr>]\<rparr>"
           General True "AxiosError None" 86400001 86400001]
    by (simp add: generateCacheKey_def CACHE_PREFIX_def orElse_def)
qed

text \<open>
  C10. With \<^verbatim>\<open>useCache = false\<close> on page 1, a successful request returns the response and
  stores it with \<^verbatim>\<open>cacheArticles\<close> under the request's key (entry and index row), as the
  claim says. A failed request falls back to \<^verbatim>\<open>getCachedArticles\<close>: an entry no older than
  \<open>maxAge\<close> is returned, but an entry older than \<open>maxAge\<close> is cleared and the error is
  raised, although a cached payload is present.
\<close>

theorem useCache_false_page_one:
  "searchNews qry 1 False (Inr response) now_fresh now_entry now_meta now_stale s =
     (Inr response,
      cacheArticles (generateCacheKey SearchType (qry @ ''_page1'')) response
        \<lparr>m_key = generateCacheKey SearchType (qry @ ''_page1''), m_timestamp = 0,
         m_category = None, m_query = Some qry\<rparr>
        now_entry now_meta s) \<and>
   getTopHeadlines cat 1 False (Inr response) now_fresh now_entry now_meta now_stale s =
     (Inr response,
      cacheArticles (generateCacheKey CategoryType (categoryName cat @ ''_page1'')) response
        \<lparr>m_key = generateCacheKey CategoryType (categoryName cat @ ''_page1''),
         m_timestamp = 0, m_category = Some (categoryName cat), m_query = None\<rparr>
        now_entry now_meta s) \<and>
   (items s (generateCacheKey SearchType (qry @ ''_page1'')) = Some e \<and>
    now_stale - timestamp e \<le> maxAge \<longrightarrow>
      searchNews qry 1 False (Inl error) now_fresh now_entry now_meta now_stale s =
        (Inr (data e), s)) \<and>
   (items s (generateCacheKey CategoryType (categoryName cat @ ''_page1'')) = Some e \<and>
    now_stale - timestamp e \<le> maxAge \<longrightarrow>
      getTopHeadlines cat 1 False (Inl error) now_fresh now_entry now_meta now_stale s =
        (Inr (data e), s)) \<and>
   (items s (generateCacheKey SearchType (qry @ ''_page1'')) = Some e \<and>
    maxAge < now_stale - timestamp e \<longrightarrow>
      searchNews qry 1 False (Inl error) now_fresh now_entry now_meta now_stale s =
        (Inl (case error of
                AxiosError m \<Rightarrow> orElse m ''Failed to search news. Please check your connection.''
              | OtherError \<Rightarrow> ''An unexpected error occurred while searching.''),
         clearCache (generateCacheKey SearchType (qry @ ''_page1'')) s)) \<and>
   (items s (generateCacheKey CategoryType (categoryName cat @ ''_page1'')) = Some e \<and>
    maxAge < now_stale - timestamp e \<longrightarrow>
      getTopHeadlines cat 1 False (Inl error) now_fresh now_entry now_meta now_stale s =
        (Inl (case error of
                AxiosError m \<Rightarrow> orElse m ''Failed to fetch news. Please check your connection.''
              | OtherError \<Rightarrow> ''An unexpected error occurred while fetching news.''),
         clearCache (generateCacheKey CategoryType (categoryName cat @ ''_page1'')) s))"
proof -
  have "searchNews qry 1 False (Inr response) now_fresh now_entry now_meta now_stale s =
     (Inr response,
      cacheArticles (generateCacheKey SearchType (qry @ ''_page1'')) response
        \<lparr>m_key = generateCacheKey SearchType (qry @ ''_page1''), m_timestamp = 0,
         m_category = None, m_query = Some qry\<rparr>
        now_entry now_meta s)"
    by (simp add: searchNews_def numberToString_1 Let_def)
  moreover have "getTopHeadlines cat 1 False (Inr response) now_fresh now_entry now_meta now_stale s =
     (Inr response,
      cacheArticles (generateCacheKey CategoryType (categoryName cat @ ''_page1'')) response
        \<lparr>m_key = generateCacheKey CategoryType (categoryName cat @ ''_page1''),
         m_timestamp = 0, m_category = Some (categoryName cat), m_query = None\<rparr>
        now_entry now_meta s)"
    by (simp add: getTopHeadlines_def numberToString_1 Let_def)
  moreover have "searchNews qry 1 False (Inl error) now_fresh now_entry now_meta now_stale s =
        (Inr (data e), s)"
    if "items s (generateCacheKey SearchType (qry @ ''_page1'')) = Some e"
      and "now_stale - timestamp e \<le> maxAge"
    using that by (simp add: searchNews_def numberToString_1 getCachedArticles_fresh)
  moreover have "getTopHeadlines cat 1 False (Inl error) now_fresh now_entry now_meta now_stale s =
        (Inr (data e), s)"
    if "items s (generateCacheKey CategoryType (categoryName cat @ ''_page1'')) = Some e"
      and "now_stale - timestamp e \<le> maxAge"
    using that by (simp add: getTopHeadlines_def numberToString_1 getCachedArticles_fresh)
  moreover have "searchNews qry 1 False (Inl error) now_fresh now_entry now_meta now_stale s =
        (Inl (case error of
                AxiosError m \<Rightarrow> orElse m ''Failed to search news. Please check your connection.''
              | OtherError \<Rightarrow> ''An unexpected error occurred while searching.''),
         clearCache (generateCacheKey SearchType (qry @ ''_page1'')) s)"
    if "items s (generateCacheKey SearchType (qry @ ''_page1'')) = Some e"
      and "maxAge < now_stale - timestamp e"
    using that
    by (simp add: searchNews_def numberToString_1 getCachedArticles_expired split: fetchError.splits)
  moreover have "getTopHeadlines cat 1 False (Inl error) now_fresh now_entry now_meta now_stale s =
        (Inl (case error of
                AxiosError m \<Rightarrow> orElse m ''Failed to fetch news. Please check your connection.''
              | OtherError \<Rightarrow> ''An unexpected error occurred while fetching news.''),
         clearCache (generateCacheKey CategoryType (categoryName cat @ ''_page1'')) s)"
    if "items s (generateCacheKey CategoryType (categoryName cat @ ''_page1'')) = Some e"
      and "maxAge < now_stale - timestamp e"
    using that
    by (simp add: getTopHeadlines_def numberToString_1 getCachedArticles_expired
          split: fetchError.splits)
  ultimately show ?thesis
    by blast
qed

theorem useCache_false_page_one_witness:
  "searchNews ''climate'' 1 False (Inl OtherError) 86400001 86400001 86400001 86400001
     \<lparr>items = [''@news_cache_search_climate_page1'' \<mapsto>
                 \<lparr>data = \<lparr>status = ''ok'', totalResults = 0, articles = []\<rparr>, timestamp = 0\<rparr>],
      metadata = Some [\<lparr>m_key = ''@news_cache_search_climate_page1'', m_timestamp = 0,
                        m_category = None, m_query = Some ''climate''\<rparr>]\<rparr>
   = (Inl ''An unexpected error occurred while searching.'',
      clearCache ''@news_cache_search_climate_page1''
        \<lparr>items = [''@news_cache_search_climate_page1'' \<mapsto>
                    \<lparr>data = \<lparr>status = ''ok'', totalResults = 0, articles = []\<rparr>, timestamp = 0\<rparr>],
         metadata = Some [\<lparr>m_key = ''@news_cache_search_climate_page1'', m_timestamp = 0,
                           m_category = None, m_query = Some ''climate''\<rparr>]\<rparr>)"
  using useCache_false_page_one [of "''climate''" _ 86400001 86400001 86400001 86400001
           "\<lparr>items = [''@news_cache_search_climate_page1'' \<mapsto>
                 \<lparr>data = \<lparr>status = ''ok'', totalResults = 0, articles = []\<rparr>, timestamp = 0\<rparr>],
             metadata = Some [\<lparr>m_key = ''@news_cache_search_climate_page1'', m_timestamp = 0,
                        m_category = None, m_query = Some ''climate''\<rparr>]\<rparr>"
           _ "\<lparr>data = \<lparr>status = ''ok'', totalResults = 0, articles = []\<rparr>, timestamp = 0\<rparr>"
           OtherError]
  by (simp add: maxAge_value generateCacheKey_def CACHE_PREFIX_def)

section \<open>Properties of the reading event log\<close>

lemma findIndex_ge: "- 1 \<le> findIndex P xs"
  by (induction xs) (auto simp: Let_def)

lemma spliceOne_Cons: "0 \<le> i \<Longrightarrow> spliceOne (i + 1) (x # xs) = x # spliceOne i xs"
  by (simp add: spliceOne_def nat_add_distrib)

lemma spliceOne_0: "spliceOne 0 (x # xs) = xs"
  by (simp add: spliceOne_def)

text \<open>When no two elements have the same key, removing the element that \<^verbatim>\<open>findIndex\<close> finds
  removes every element with that key.\<close>

lemma splice_found_is_filter:
  "distinct (map f xs) \<Longrightarrow>
     (if findIndex (\<lambda>x. f x = a) xs \<noteq> - 1 then spliceOne (findIndex (\<lambda>x. f x = a) xs) xs else xs) =
       filter (\<lambda>x. f x \<noteq> a) xs"
proof (induction xs)
  case Nil
  show ?case by simp
next
  case (Cons x xs)
  show ?case
  proof (cases "f x = a")
    case True
    with Cons.prems have "\<forall>y \<in> set xs. f y \<noteq> a"
      by (auto simp: image_iff)
    then have "filter (\<lambda>x. f x \<noteq> a) xs = xs"
      by (simp add: filter_id_conv)
    with True show ?thesis
      by (simp add: spliceOne_0)
  next
    case False
    from Cons have IH: "(if findIndex (\<lambda>x. f x = a) xs \<noteq> - 1
          then spliceOne (findIndex (\<lambda>x. f x = a) xs) xs else xs) = filter (\<lambda>x. f x \<noteq> a) xs"
      by simp
    show ?thesis
    proof (cases "findIndex (\<lambda>x. f x = a) xs = - 1")
      case True
      with False IH show ?thesis by simp
    next
      case found: False
      then have "0 \<le> findIndex (\<lambda>x. f x = a) xs"
        using findIndex_ge [of "\<lambda>x. f x = a" xs] by arith
      moreover from this have "findIndex (\<lambda>x. f x = a) xs + 1 \<noteq> - 1" by arith
      ultimately show ?thesis
        using False found IH by (simp add: Let_def spliceOne_Cons)
    qed
  qed
qed

lemma getHistory_addToHistory:
  assumes "distinct (map (\<lambda>item. url (article item)) (getHistory hs))"
  shows "getHistory (addToHistory art rt cat now hs) =
     take MAX_HISTORY_ITEMS
       (\<lparr>article = art, readAt = now, readingTime = rt, category = cat,
         source = (if source_name art = [] then ''Unknown'' else source_name art)\<rparr> #
        filter (\<lambda>item. url (article item) \<noteq> url art) (getHistory hs))"
proof -
  have "(if findIndex (\<lambda>item. url (article item) = url art) (getHistory hs) \<noteq> - 1
         then spliceOne (findIndex (\<lambda>item. url (article item) = url art) (getHistory hs)) (getHistory hs)
         else getHistory hs) = filter (\<lambda>item. url (article item) \<noteq> url art) (getHistory hs)"
    using splice_found_is_filter [OF assms] .
  then show ?thesis
    unfolding addToHistory_def Let_def
    by (simp add: getHistory_def [of "Some _"])
qed

lemma length_addToHistory: "length (getHistory (addToHistory art rt cat now hs)) \<le> MAX_HISTORY_ITEMS"
  by (simp add: addToHistory_def Let_def getHistory_def [of "Some _"])

lemma distinct_after_add:
  assumes "distinct (map (\<lambda>item. url (article item)) (getHistory hs))"
  shows "distinct (map (\<lambda>item. url (article item)) (getHistory (addToHistory art rt cat now hs)))"
  unfolding getHistory_addToHistory [OF assms]
  using assms
  by (auto simp: take_map [symmetric] distinct_map_filter intro!: distinct_take)

text \<open>A log the service can hold has at most one event per article URL.\<close>

lemma reachable_distinct:
  "reachableHistory hs \<Longrightarrow> distinct (map (\<lambda>item. url (article item)) (getHistory hs))"
proof (induction rule: reachableHistory.induct)
  case unset
  show ?case by (simp add: getHistory_def)
next
  case (added hs art rt cat now)
  then show ?case by (simp add: distinct_after_add)
next
  case (removed hs articleUrl)
  then show ?case
    by (simp add: removeFromHistory_def getHistory_def [of "Some _"] distinct_map_filter)
next
  case (cleared hs)
  show ?case by (simp add: clearHistory_def getHistory_def)
qed

text \<open>
  C7. For every log the service can hold and every article URL: after two
  \<^verbatim>\<open>addToHistory\<close> calls for articles with the same URL, \<^verbatim>\<open>getHistory\<close> has exactly one
  entry for that URL; it is the first entry and carries the article, timestamp, reading
  time and category of the second call. After every \<^verbatim>\<open>addToHistory\<close> the log has at most
  \<open>MAX_HISTORY_ITEMS = 100\<close> entries, and it is the prefix of that length of the new event
  followed by the earlier events of other URLs, so that what is dropped is the tail of
  the most-recent-first order.
\<close>

theorem record_twice_keeps_one_entry:
  assumes "reachableHistory hs" and "url art2 = url art1"
  shows "length (filter (\<lambda>item. url (article item) = url art1)
           (getHistory (addToHistory art2 rt2 cat2 now2 (addToHistory art1 rt1 cat1 now1 hs)))) = 1 \<and>
         (\<exists>rest. getHistory (addToHistory art2 rt2 cat2 now2 (addToHistory art1 rt1 cat1 now1 hs)) =
            \<lparr>article = art2, readAt = now2, readingTime = rt2, category = cat2,
              source = (if source_name art2 = [] then ''Unknown'' else source_name art2)\<rparr> # rest) \<and>
         length (getHistory (addToHistory art1 rt1 cat1 now1 hs)) \<le> 100 \<and>
         length (getHistory (addToHistory art2 rt2 cat2 now2 (addToHistory art1 rt1 cat1 now1 hs))) \<le> 100 \<and>
         getHistory (addToHistory art1 rt1 cat1 now1 hs) =
           take 100
             (\<lparr>article = art1, readAt = now1, readingTime = rt1, category = cat1,
               source = (if source_name art1 = [] then ''Unknown'' else source_name art1)\<rparr> #
              filter (\<lambda>item. url (article item) \<noteq> url art1) (getHistory hs))"
proof -
  let ?h1 = "addToHistory art1 rt1 cat1 now1 hs"
  let ?new = "\<lparr>article = art2, readAt = now2, readingTime = rt2, category = cat2,
              source = (if source_name art2 = [] then ''Unknown'' else source_name art2)\<rparr>"
  let ?others = "filter (\<lambda>item. url (article item) \<noteq> url art2) (getHistory ?h1)"
  have d0: "distinct (map (\<lambda>item. url (article item)) (getHistory hs))"
    using assms(1) by (rule reachable_distinct)
  have "reachableHistory ?h1"
    using assms(1) by (rule reachableHistory.added)
  then have d1: "distinct (map (\<lambda>item. url (article item)) (getHistory ?h1))"
    by (rule reachable_distinct)
  have h2: "getHistory (addToHistory art2 rt2 cat2 now2 ?h1) = take MAX_HISTORY_ITEMS (?new # ?others)"
    using d1 by (rule getHistory_addToHistory)
  have none: "filter (\<lambda>item. url (article item) = url art1) (take 99 ?others) = []"
    using assms(2) by (auto simp: filter_empty_conv dest: in_set_takeD)
  have split: "take MAX_HISTORY_ITEMS (?new # ?others) = ?new # take 99 ?others"
    by (simp add: MAX_HISTORY_ITEMS_def take_Cons')
  have one: "length (filter (\<lambda>item. url (article item) = url art1)
               (getHistory (addToHistory art2 rt2 cat2 now2 ?h1))) = 1"
    unfolding h2 split using assms(2) none by simp
  have head: "\<exists>rest. getHistory (addToHistory art2 rt2 cat2 now2 ?h1) = ?new # rest"
    unfolding h2 split by blast
  have cap1: "length (getHistory ?h1) \<le> 100"
    using length_addToHistory [of art1 rt1 cat1 now1 hs] by (simp add: MAX_HISTORY_ITEMS_def)
  have cap2: "length (getHistory (addToHistory art2 rt2 cat2 now2 ?h1)) \<le> 100"
    using length_addToHistory [of art2 rt2 cat2 now2 ?h1] by (simp add: MAX_HISTORY_ITEMS_def)
  have prefix: "getHistory ?h1 =
           take 100
             (\<lparr>article = art1, readAt = now1, readingTime = rt1, category = cat1,
               source = (if source_name art1 = [] then ''Unknown'' else source_name art1)\<rparr> #
              filter (\<lambda>item. url (article item) \<noteq> url art1) (getHistory hs))"
    using getHistory_addToHistory [OF d0, of art1 rt1 cat1 now1] by (simp add: MAX_HISTORY_ITEMS_def)
  from one head cap1 cap2 prefix show ?thesis
    by blast
qed

theorem record_twice_keeps_one_entry_witness:
  "reachableHistory None \<and>
   getHistory
     (addToHistory
        \<lparr>source_id = None, source_name = ''BBC News'', author = None, title = ''T'',
         description = None, url = ''https://example.org/a'', urlToImage = None,
         publishedAt = ''2024-01-01T00:00:00Z'', content = None\<rparr> 42 ''sports'' 2000
        (addToHistory
           \<lparr>source_id = None, source_name = ''BBC News'', author = None, title = ''T'',
            description = None, url = ''https://example.org/a'', urlToImage = None,
            publishedAt = ''2024-01-01T00:00:00Z'', content = None\<rparr> 10 ''general'' 1000 None))
   = [\<lparr>article =
          \<lparr>source_id = None, source_name = ''BBC News'', author = None, title = ''T'',
           description = None, url = ''https://example.org/a'', urlToImage = None,
           publishedAt = ''2024-01-01T00:00:00Z'', content = None\<rparr>,
        readAt = 2000, readingTime = 42, category = ''sports'', source = ''BBC News''\<rparr>]"
proof -
  let ?a = "\<lparr>source_id = None, source_name = ''BBC News'', author = None, title = ''T'',
         description = None, url = ''https://example.org/a'', urlToImage = None,
         publishedAt = ''2024-01-01T00:00:00Z'', content = None\<rparr>"
  have same: "url ?a = url ?a" by simp
  from record_twice_keeps_one_entry [OF reachableHistory.unset same, of 42 "''sports''" 2000 10 "''general''" 1000]
  obtain rest where
    one: "length (filter (\<lambda>item. url (article item) = url ?a)
           (getHistory (addToHistory ?a 42 ''sports'' 2000 (addToHistory ?a 10 ''general'' 1000 None)))) = 1"
    and hd: "getHistory (addToHistory ?a 42 ''sports'' 2000 (addToHistory ?a 10 ''general'' 1000 None)) =
       \<lparr>article = ?a, readAt = 2000, readingTime = 42, category = ''sports'',
         source = (if source_name ?a = [] then ''Unknown'' else source_name ?a)\<rparr> # rest"
    by blast
  have "rest = []"
    using hd by (simp add: addToHistory_def getHistory_def Let_def MAX_HISTORY_ITEMS_def spliceOne_def)
  with hd show ?thesis
    by (simp add: reachableHistory.unset)
qed

section \<open>Properties of the analytics reducer\<close>

text \<open>
  C6. \<^verbatim>\<open>getStats\<close> on an empty log (the key unset, or an empty list stored) returns the
  snapshot of \<^verbatim>\<open>getEmptyStats\<close>, before any division is evaluated: the counts are 0, the
  durations are the number 0 (not the outcome of a division by zero), both streaks are
  0, the tables are empty, and \<^verbatim>\<open>favoriteCategory\<close> is \<^verbatim>\<open>'None'\<close>.
\<close>

theorem getStats_empty_log:
  "getStats tz now None = getEmptyStats \<and>
   getStats tz now (Some []) = getEmptyStats \<and>
   totalArticlesRead (getStats tz now (Some [])) = 0 \<and>
   totalReadingTime (getStats tz now (Some [])) = Some 0 \<and>
   averageReadingTime (getStats tz now (Some [])) = Some 0 \<and>
   currentStreak (getStats tz now (Some [])) = 0 \<and>
   longestStreak (getStats tz now (Some [])) = 0 \<and>
   articlesReadToday (getStats tz now (Some [])) = 0 \<and>
   articlesReadThisWeek (getStats tz now (Some [])) = 0 \<and>
   articlesReadThisMonth (getStats tz now (Some [])) = 0 \<and>
   favoriteCategory (getStats tz now (Some [])) = ''None'' \<and>
   favoriteSource (getStats tz now (Some [])) = ''None'' \<and>
   categoriesBreakdown (getStats tz now (Some [])) = [] \<and>
   sourcesBreakdown (getStats tz now (Some [])) = [] \<and>
   readingByDay (getStats tz now (Some [])) = [] \<and>
   readingByHour (getStats tz now (Some [])) = []"
  by (simp add: getStats_def getHistory_def getEmptyStats_def)

text \<open>No log makes \<^verbatim>\<open>getStats\<close> divide by zero: both quotients are finite numbers.\<close>

lemma getStats_quotients_finite:
  "totalReadingTime (getStats tz now hs) \<noteq> None \<and> averageReadingTime (getStats tz now hs) \<noteq> None"
proof (cases "getHistory hs = []")
  case True
  then show ?thesis
    by (simp add: getStats_def getEmptyStats_def)
next
  case False
  have "quotient a 60 = Some (a / 60)" for a
    by (simp add: quotient_def)
  moreover have "quotient b (rat_of_nat (length (getHistory hs))) =
      Some (b / rat_of_nat (length (getHistory hs)))" for b
    using False by (simp add: quotient_def)
  ultimately show ?thesis
    using False by (simp add: getStats_def Let_def)
qed


subsection \<open>Streaks\<close>

text \<open>In a zone whose offset from UTC never changes, stepping back by 24 hours is stepping
  back by one calendar day.\<close>

lemma set_sortedDays:
  "set (sortedDays tz history) = (\<lambda>item. getDateKey tz (readAt item)) ` set history"
  by (simp add: sortedDays_def)

lemma length_sortedDays:
  "length (sortedDays tz history) = card ((\<lambda>item. getDateKey tz (readAt item)) ` set history)"
proof -
  have "distinct (sortedDays tz history)"
    by (simp add: sortedDays_def)
  then have "card (set (sortedDays tz history)) = length (sortedDays tz history)"
    by (rule distinct_card)
  then show ?thesis
    by (simp add: set_sortedDays)
qed

lemma fixed_offset_day_before:
  assumes "\<forall>t. tz t = off"
  shows "getDateKey tz (t - msPerDay) = getDateKey tz t - 1"
proof -
  have "t - msPerDay + off = (t + off) + (- 1) * msPerDay"
    by simp
  then have "(t - msPerDay + off) div msPerDay = (t + off) div msPerDay + (- 1)"
    by (simp only: div_mult_self1 [of msPerDay "t + off" "- 1"] msPerDay_def) simp
  then show ?thesis
    using assms by (simp add: getDateKey_def)
qed

lemma currentStreakLoop_fixed_offset:
  assumes "\<forall>t. tz t = off"
    and "\<forall>j. 1 \<le> j \<and> j \<le> int m \<longrightarrow> getDateKey tz checkDate - j \<in> set days"
    and "getDateKey tz checkDate - (int m + 1) \<notin> set days"
    and "m \<le> n"
  shows "currentStreakLoop n tz days checkDate c = c + m"
  using assms(2-)
proof (induction n arbitrary: checkDate c m)
  case 0
  then show ?case by simp
next
  case (Suc n)
  have step: "getDateKey tz (checkDate - msPerDay) = getDateKey tz checkDate - 1"
    using assms(1) by (rule fixed_offset_day_before)
  show ?case
  proof (cases m)
    case 0
    with Suc.prems(2) have "getDateKey tz checkDate - 1 \<notin> set days"
      by simp
    with 0 show ?thesis
      by (simp add: step Let_def)
  next
    case (Suc m')
    have first: "getDateKey tz checkDate - 1 \<in> set days"
      using Suc.prems(1) [rule_format, of 1] Suc by simp
    have below: "\<forall>j. 1 \<le> j \<and> j \<le> int m' \<longrightarrow> getDateKey tz (checkDate - msPerDay) - j \<in> set days"
    proof (intro allI impI)
      fix j :: int
      assume "1 \<le> j \<and> j \<le> int m'"
      then have "1 \<le> j + 1 \<and> j + 1 \<le> int m"
        using Suc by simp
      then have "getDateKey tz checkDate - (j + 1) \<in> set days"
        using Suc.prems(1) by blast
      then show "getDateKey tz (checkDate - msPerDay) - j \<in> set days"
        by (simp add: step algebra_simps)
    qed
    have gap: "getDateKey tz (checkDate - msPerDay) - (int m' + 1) \<notin> set days"
      using Suc.prems(2) Suc by (simp add: step algebra_simps)
    have "m' \<le> n"
      using Suc.prems(3) Suc by simp
    from Suc.IH [OF below gap this, of "c + 1"] first Suc show ?thesis
      by (simp add: step Let_def)
  qed
qed

lemma run_fits:
  fixes d :: int and S :: "int set"
  assumes "finite S" and "\<forall>j<k. d - int j \<in> S"
  shows "k \<le> card S"
proof -
  have "inj_on (\<lambda>j. d - int j) {..<k}"
    by (simp add: inj_on_def)
  then have "card ((\<lambda>j. d - int j) ` {..<k}) = k"
    by (simp add: card_image)
  moreover have "(\<lambda>j. d - int j) ` {..<k} \<subseteq> S"
    using assms(2) by auto
  ultimately show ?thesis
    using card_mono [OF assms(1), of "(\<lambda>j. d - int j) ` {..<k}"] by simp
qed

lemma currentStreak_fixed_offset:
  assumes fixed: "\<forall>t. tz t = off"
    and start: "d = (if getDateKey tz now \<in> (\<lambda>item. getDateKey tz (readAt item)) ` set history
                 then getDateKey tz now else getDateKey tz now - 1)"
    and run: "1 \<le> k" "\<forall>j<k. d - int j \<in> (\<lambda>item. getDateKey tz (readAt item)) ` set history"
    and gap: "d - int k \<notin> (\<lambda>item. getDateKey tz (readAt item)) ` set history"
  shows "fst (calculateStreaks tz now history) = k"
proof -
  let ?S = "(\<lambda>item. getDateKey tz (readAt item)) ` set history"
  let ?days = "sortedDays tz history"
  have S: "set ?days = ?S" by (rule set_sortedDays)
  from run have dS: "d \<in> ?S"
    by (metis diff_zero of_nat_0 less_eq_Suc_le One_nat_def)
  then have nonempty: "history \<noteq> []" by auto
  have y: "getDateKey tz (now - msPerDay) = getDateKey tz now - 1"
    using fixed by (rule fixed_offset_day_before)
  have anchor: "getDateKey tz now \<in> ?S \<or> getDateKey tz now - 1 \<in> ?S"
    using dS start by (auto split: if_splits)
  have key: "getDateKey tz (if getDateKey tz now \<in> ?S then now else now - msPerDay) = d"
    using start y by simp
  have "k \<le> card ?S"
    using run(2) by (intro run_fits) auto
  then have fits: "k - 1 \<le> length ?days - 1"
    by (simp add: length_sortedDays)
  have below: "\<forall>j. 1 \<le> j \<and> j \<le> int (k - 1) \<longrightarrow>
      getDateKey tz (if getDateKey tz now \<in> ?S then now else now - msPerDay) - j \<in> set ?days"
  proof (intro allI impI)
    fix j :: int
    assume j: "1 \<le> j \<and> j \<le> int (k - 1)"
    then have "nat j < k" using run(1) by linarith
    then have "d - int (nat j) \<in> ?S" using run(2) by blast
    with j show "getDateKey tz (if getDateKey tz now \<in> ?S then now else now - msPerDay) - j \<in> set ?days"
      unfolding key S by simp
  qed
  have stop: "getDateKey tz (if getDateKey tz now \<in> ?S then now else now - msPerDay) - (int (k - 1) + 1)
      \<notin> set ?days"
    unfolding key S using gap run(1) by simp
  have loop: "currentStreakLoop (length ?days - 1) tz ?days
      (if getDateKey tz now \<in> ?S then now else now - msPerDay) 1 = 1 + (k - 1)"
    using currentStreakLoop_fixed_offset [OF fixed below stop fits] .
  show ?thesis
    using nonempty anchor loop run(1)
    by (simp add: calculateStreaks_def Let_def S y split: prod.splits)
qed

lemma currentStreak_none_recent:
  assumes "getDateKey tz now \<notin> (\<lambda>item. getDateKey tz (readAt item)) ` set history"
    and "getDateKey tz (now - msPerDay) \<notin> (\<lambda>item. getDateKey tz (readAt item)) ` set history"
  shows "fst (calculateStreaks tz now history) = 0"
  using assms
  by (simp add: calculateStreaks_def Let_def set_sortedDays split: prod.splits)


text \<open>The scenarios of the streak in a zone with a fixed offset, \<open>D\<close> being the local day
  of \<open>now\<close> and \<open>S\<close> the set of days with an event: events on \<open>D\<close>, \<open>D - 1\<close>, \<open>D - 2\<close> but not
  on \<open>D - 3\<close> give 3; events on \<open>D\<close> but not on \<open>D - 1\<close> give 1; events on \<open>D - 1\<close> to
  \<open>D - 5\<close> but neither on \<open>D\<close> nor on \<open>D - 6\<close> give 5.\<close>

lemma streak_scenarios_fixed_offset:
  assumes fixed: "\<forall>t. tz t = off"
    and S: "S = (\<lambda>item. getDateKey tz (readAt item)) ` set history"
    and D: "D = getDateKey tz now"
  shows "D \<in> S \<Longrightarrow> D - 1 \<in> S \<Longrightarrow> D - 2 \<in> S \<Longrightarrow> D - 3 \<notin> S \<Longrightarrow>
           fst (calculateStreaks tz now history) = 3"
    and "D \<in> S \<Longrightarrow> D - 1 \<notin> S \<Longrightarrow> fst (calculateStreaks tz now history) = 1"
    and "D \<notin> S \<Longrightarrow> D - 1 \<in> S \<Longrightarrow> D - 2 \<in> S \<Longrightarrow> D - 3 \<in> S \<Longrightarrow> D - 4 \<in> S \<Longrightarrow>
           D - 5 \<in> S \<Longrightarrow> D - 6 \<notin> S \<Longrightarrow> fst (calculateStreaks tz now history) = 5"
    and "D \<notin> S \<Longrightarrow> D - 1 \<notin> S \<Longrightarrow> fst (calculateStreaks tz now history) = 0"
proof -
  show "fst (calculateStreaks tz now history) = 3"
    if "D \<in> S" "D - 1 \<in> S" "D - 2 \<in> S" "D - 3 \<notin> S"
  proof (rule currentStreak_fixed_offset [OF fixed, where d = D])
    show "D = (if getDateKey tz now \<in> (\<lambda>item. getDateKey tz (readAt item)) ` set history
               then getDateKey tz now else getDateKey tz now - 1)"
      using that S D by simp
    show "\<forall>j<3. D - int j \<in> (\<lambda>item. getDateKey tz (readAt item)) ` set history"
      using that S by (auto simp: numeral_3_eq_3 less_Suc_eq)
    show "D - int 3 \<notin> (\<lambda>item. getDateKey tz (readAt item)) ` set history"
      using that S by simp
  qed simp
  show "fst (calculateStreaks tz now history) = 1" if "D \<in> S" "D - 1 \<notin> S"
  proof (rule currentStreak_fixed_offset [OF fixed, where d = D])
    show "D = (if getDateKey tz now \<in> (\<lambda>item. getDateKey tz (readAt item)) ` set history
               then getDateKey tz now else getDateKey tz now - 1)"
      using that S D by simp
    show "\<forall>j<1. D - int j \<in> (\<lambda>item. getDateKey tz (readAt item)) ` set history"
      using that S by simp
    show "D - int 1 \<notin> (\<lambda>item. getDateKey tz (readAt item)) ` set history"
      using that S by simp
  qed simp
  show "fst (calculateStreaks tz now history) = 5"
    if "D \<notin> S" "D - 1 \<in> S" "D - 2 \<in> S" "D - 3 \<in> S" "D - 4 \<in> S" "D - 5 \<in> S" "D - 6 \<notin> S"
  proof (rule currentStreak_fixed_offset [OF fixed, where d = "D - 1"])
    show "D - 1 = (if getDateKey tz now \<in> (\<lambda>item. getDateKey tz (readAt item)) ` set history
               then getDateKey tz now else getDateKey tz now - 1)"
      using that S D by simp
    show "\<forall>j<5. D - 1 - int j \<in> (\<lambda>item. getDateKey tz (readAt item)) ` set history"
      using that S by (auto simp: eval_nat_numeral less_Suc_eq)
    show "D - 1 - int 5 \<notin> (\<lambda>item. getDateKey tz (readAt item)) ` set history"
      using that S by simp
  qed simp
  show "fst (calculateStreaks tz now history) = 0" if "D \<notin> S" "D - 1 \<notin> S"
    using that S D fixed_offset_day_before [OF fixed, of now]
    by (intro currentStreak_none_recent) simp_all
qed

text \<open>
  C5. The claim describes the current streak in calendar days: seeded at 1 when today or
  yesterday has an event and extended backward one calendar day at a time. The source
  steps back by 24 hours (\<^verbatim>\<open>Date.now() - 24 * 60 * 60 * 1000\<close>) and takes the local date of
  the result, which is the previous calendar day only while the zone's offset does not
  change (see \<open>streak_scenarios_fixed_offset\<close>). In the zone \<open>londonSpring2024\<close>, at
  2024-04-01 00:30 local time (time value 1711927800000, local day 19814), 24 hours
  earlier is 2024-03-30 23:30 local time, so that 2024-03-31 (day 19813) is never
  looked at: a log whose only event is on that day, yesterday, gets the current streak 0,
  and a log with events on each of the five days before today gets 4, not 5. An empty
  log gives 0 for both streaks, as the claim says.
\<close>

theorem streak_across_clock_change:
  "getDateKey londonSpring2024 1711927800000 = 19814 \<and>
   getDateKey londonSpring2024 1711886400000 = 19813 \<and>
   calculateStreaks londonSpring2024 1711927800000 [eventAt 1711886400000] = (0, 1) \<and>
   map (\<lambda>item. getDateKey londonSpring2024 (readAt item))
     (map (\<lambda>i. eventAt (1711886400000 - i * msPerDay)) [0, 1, 2, 3, 4]) =
       [19813, 19812, 19811, 19810, 19809] \<and>
   calculateStreaks londonSpring2024 1711927800000
     (map (\<lambda>i. eventAt (1711886400000 - i * msPerDay)) [0, 1, 2, 3, 4]) = (4, 5) \<and>
   calculateStreaks tz now [] = (0, 0)"
  by (simp add: calculateStreaks_def sortedDays_def getDateKey_def londonSpring2024_def
      msPerDay_def eventAt_def)


subsection \<open>Counting tables and favorites\<close>

lemma map_of_replace:
  "map_of (map (\<lambda>(k', v'). if k' = k then (k', v) else (k', v')) obj) x =
     (if x = k \<and> k \<in> fst ` set obj then Some v else map_of obj x)"
proof (induction obj)
  case Nil
  show ?case by simp
next
  case (Cons a obj)
  obtain k' v' where a: "a = (k', v')"
    by (cases a)
  show ?case
  proof (cases "x = k'")
    case True
    then show ?thesis
      by (simp add: a)
  next
    case False
    have "map_of (map (\<lambda>(k', v'). if k' = k then (k', v) else (k', v')) (a # obj)) x =
        map_of (map (\<lambda>(k', v'). if k' = k then (k', v) else (k', v')) obj) x"
      using False by (cases "k' = k") (simp_all add: a)
    also have "\<dots> = (if x = k \<and> k \<in> fst ` set obj then Some v else map_of obj x)"
      by (rule Cons)
    also have "\<dots> = (if x = k \<and> k \<in> fst ` set (a # obj) then Some v else map_of (a # obj) x)"
      using False by (auto simp: a)
    finally show ?thesis .
  qed
qed

lemma fst_replaced: "fst (case x of (k', v') \<Rightarrow> if k' = k then (k', v) else (k', v')) = fst x"
  by (cases x) simp

lemma fst_replace:
  "map fst (map (\<lambda>(k', v'). if k' = k then (k', v) else (k', v')) obj) = map fst obj"
  by (simp add: fst_replaced)

lemma map_of_insertIndexed:
  "k \<notin> fst ` set obj \<Longrightarrow> map_of (insertIndexed k v obj) = (map_of obj)(k \<mapsto> v)"
  by (induction obj) (auto simp: fun_eq_iff)

lemma set_insertIndexed: "fst ` set (insertIndexed k v obj) = insert k (fst ` set obj)"
proof (induction obj)
  case Nil
  show ?case by simp
next
  case (Cons a obj)
  then show ?case
    by (cases a) (simp add: insert_commute)
qed

lemma map_of_setProperty: "map_of (setProperty k v obj) = (map_of obj)(k \<mapsto> v)"
proof (cases "k \<in> fst ` set obj")
  case True
  then show ?thesis
    by (auto simp: setProperty_def map_of_replace fun_eq_iff)
next
  case False
  then have "map_of obj k = None"
    by (simp add: map_of_eq_None_iff)
  with False show ?thesis
    by (auto simp: setProperty_def map_of_insertIndexed fun_eq_iff map_add_def split: option.splits)
qed

lemma keys_setProperty: "fst ` set (setProperty k v obj) = insert k (fst ` set obj)"
proof -
  have "fst ` set (map (\<lambda>(k', v'). if k' = k then (k', v) else (k', v')) obj) = fst ` set obj"
    using fst_replace [of k v obj] by (metis list.set_map)
  then show ?thesis
    by (simp add: setProperty_def set_insertIndexed insert_absorb)
qed

lemma fst_setProperty_plain:
  "\<not> isArrayIndex k \<Longrightarrow>
     map fst (setProperty k v obj) = (if k \<in> fst ` set obj then map fst obj else map fst obj @ [k])"
  by (simp add: setProperty_def fst_replaced)

lemma tally_snoc: "tally (ks @ [k]) = increment k (tally ks)"
  by (simp add: tally_def)

lemma count_list_snoc: "count_list (xs @ [x]) y = count_list xs y + (if x = y then 1 else 0)"
  by (induction xs) auto

lemma map_of_tally:
  "map_of (tally ks) k = (if k \<in> set ks then Some (count_list ks k) else None)"
proof (induction ks arbitrary: k rule: rev_induct)
  case Nil
  show ?case by (simp add: tally_def)
next
  case (snoc x xs)
  have "map_of (tally (xs @ [x])) k =
      (if k = x then Some ((case map_of (tally xs) x of None \<Rightarrow> 0 | Some c \<Rightarrow> c) + 1)
       else map_of (tally xs) k)"
    by (simp add: tally_snoc increment_def map_of_setProperty)
  moreover have "(case map_of (tally xs) x of None \<Rightarrow> 0 | Some c \<Rightarrow> c) = count_list xs x"
    by (simp add: snoc [of x] count_list_0_iff)
  ultimately show ?case
    by (simp add: snoc [of k] count_list_snoc)
qed

lemma keys_tally: "fst ` set (tally ks) = set ks"
proof (induction ks rule: rev_induct)
  case Nil
  show ?case by (simp add: tally_def)
next
  case (snoc x xs)
  then show ?case
    by (simp add: tally_snoc increment_def keys_setProperty)
qed

lemma categoriesBreakdownOf_tally: "categoriesBreakdownOf history = tally (categoryKeys history)"
  by (simp add: categoriesBreakdownOf_def tally_def categoryKeys_def foldl_map)

lemma sourcesBreakdownOf_tally: "sourcesBreakdownOf history = tally (sourceKeys history)"
  by (simp add: sourcesBreakdownOf_def tally_def sourceKeys_def foldl_map)

text \<open>Without array indices among the keys, the keys of the table stand in the order of
  their first occurrence in the log: a key of the table occurs in the log at a position
  before which only keys that precede it in the table occur.\<close>

lemma tally_order:
  assumes "\<forall>k \<in> set ks. \<not> isArrayIndex k" and "map fst (tally ks) = p @ k # q"
  shows "\<exists>i<length ks. ks ! i = k \<and> (\<forall>j<i. ks ! j \<in> set p)"
  using assms
proof (induction ks arbitrary: p q rule: rev_induct)
  case Nil
  then show ?case by (simp add: tally_def)
next
  case (snoc x xs)
  have plain: "\<not> isArrayIndex x" and rest: "\<forall>k \<in> set xs. \<not> isArrayIndex k"
    using snoc.prems(1) by auto
  have keys: "map fst (tally (xs @ [x])) =
      (if x \<in> set xs then map fst (tally xs) else map fst (tally xs) @ [x])"
    using plain by (simp add: tally_snoc increment_def fst_setProperty_plain keys_tally)
  have old: "\<exists>i<length (xs @ [x]). (xs @ [x]) ! i = k \<and> (\<forall>j<i. (xs @ [x]) ! j \<in> set p)"
    if "map fst (tally xs) = p @ k # q'" for q'
  proof -
    from snoc.IH [OF rest that] obtain i where
      "i < length xs" "xs ! i = k" "\<forall>j<i. xs ! j \<in> set p"
      by blast
    then show ?thesis
      by (intro exI [of _ i]) (auto simp: nth_append)
  qed
  show ?case
  proof (cases "x \<in> set xs")
    case True
    with keys snoc.prems(2) have "map fst (tally xs) = p @ k # q"
      by simp
    then show ?thesis
      by (rule old)
  next
    case False
    with keys snoc.prems(2) have split: "map fst (tally xs) @ [x] = p @ k # q"
      by simp
    show ?thesis
    proof (cases q rule: rev_cases)
      case Nil
      with split have p: "p = map fst (tally xs)" and k: "k = x"
        by auto
      have "set p = set xs"
        using keys_tally [of xs] p by simp
      then show ?thesis
        using k by (intro exI [of _ "length xs"]) (auto simp: nth_append)
    next
      case (snoc q' y)
      with split have "map fst (tally xs) = p @ k # q'"
        by simp
      then show ?thesis
        by (rule old)
    qed
  qed
qed

lemma hd_insort_key:
  "hd (insort_key f x ys) = (if ys = [] \<or> f x \<le> f (hd ys) then x else hd ys)"
  by (cases ys) auto

lemma sort_key_first_minimum:
  "xs \<noteq> [] \<Longrightarrow>
     \<exists>pre post. xs = pre @ hd (sort_key f xs) # post \<and>
       (\<forall>y \<in> set pre. f (hd (sort_key f xs)) < f y) \<and>
       (\<forall>y \<in> set post. f (hd (sort_key f xs)) \<le> f y)"
proof (induction xs)
  case Nil
  then show ?case by simp
next
  case (Cons x xs)
  show ?case
  proof (cases "xs = []")
    case True
    then show ?thesis
      by (intro exI [of _ "[]"]) simp
  next
    case False
    define h where "h = hd (sort_key f xs)"
    from Cons.IH [OF False] obtain pre post where
      xs: "xs = pre @ h # post" and pre: "\<forall>y \<in> set pre. f h < f y"
      and post: "\<forall>y \<in> set post. f h \<le> f y"
      unfolding h_def by blast
    have nonempty: "sort_key f xs \<noteq> []"
      using False by (metis length_0_conv length_sort)
    have "set xs = set pre \<union> {h} \<union> set post"
      by (subst xs) auto
    then have least: "\<forall>y \<in> set xs. f h \<le> f y"
      using pre post by (auto simp: less_imp_le)
    have head: "hd (sort_key f (x # xs)) = (if f x \<le> f h then x else h)"
      using nonempty by (simp add: hd_insort_key h_def)
    show ?thesis
    proof (cases "f x \<le> f h")
      case True
      moreover have "\<forall>y \<in> set xs. f x \<le> f y"
        using True least by auto
      ultimately show ?thesis
        unfolding head by (intro exI [of _ "[]"] exI [of _ xs]) simp
    next
      case False
      have "x # xs = (x # pre) @ h # post"
        by (subst xs) simp
      moreover have "\<forall>y \<in> set (x # pre). f h < f y"
        using False pre by auto
      ultimately show ?thesis
        unfolding head using False post by (simp only: if_False) blast
    qed
  qed
qed


lemma distinct_insertIndexed:
  "k \<notin> fst ` set obj \<Longrightarrow> distinct (map fst obj) \<Longrightarrow> distinct (map fst (insertIndexed k v obj))"
proof (induction obj)
  case Nil
  show ?case by simp
next
  case (Cons a obj)
  obtain k' v' where a: "a = (k', v')" by (cases a)
  from Cons.prems have "k \<noteq> k'" "k \<notin> fst ` set obj" "k' \<notin> fst ` set obj" "distinct (map fst obj)"
    by (auto simp: a)
  with Cons.IH show ?case
    by (simp add: a set_insertIndexed)
qed

lemma distinct_setProperty:
  "distinct (map fst obj) \<Longrightarrow> distinct (map fst (setProperty k v obj))"
  using fst_replace [of k v obj]
  by (simp add: setProperty_def distinct_insertIndexed del: map_map)

lemma distinct_tally: "distinct (map fst (tally ks))"
proof (induction ks rule: rev_induct)
  case Nil
  show ?case by (simp add: tally_def)
next
  case (snoc x xs)
  then show ?case
    by (simp add: tally_snoc increment_def distinct_setProperty)
qed

lemma tally_entry: "(k, c) \<in> set (tally ks) \<Longrightarrow> k \<in> set ks \<and> c = count_list ks k"
proof -
  assume "(k, c) \<in> set (tally ks)"
  then have "map_of (tally ks) k = Some c"
    using distinct_tally [of ks] by simp
  then show ?thesis
    by (simp add: map_of_tally split: if_splits)
qed

text \<open>The head of the sorted entries of a table.\<close>

lemma favoriteOf_tally:
  assumes "ks \<noteq> []" and "[] \<notin> set ks"
  shows "\<exists>pre c post. tally ks = pre @ (favoriteOf (tally ks) fallback, c) # post \<and>
           (\<forall>e \<in> set pre. snd e < c) \<and> (\<forall>e \<in> set post. snd e \<le> c)"
proof -
  have "fst ` set (tally ks) \<noteq> {}"
    using assms(1) by (simp add: keys_tally)
  then have nonempty: "tally ks \<noteq> []"
    by auto
  define h where "h = hd (sort_key (\<lambda>entry. - int (snd entry)) (tally ks))"
  from sort_key_first_minimum [OF nonempty, of "\<lambda>entry. - int (snd entry)"]
  obtain pre post where
    split: "tally ks = pre @ h # post"
    and pre: "\<forall>y \<in> set pre. - int (snd h) < - int (snd y)"
    and post: "\<forall>y \<in> set post. - int (snd h) \<le> - int (snd y)"
    unfolding h_def by blast
  have "sort_key (\<lambda>entry. - int (snd entry)) (tally ks) \<noteq> []"
    using nonempty by (metis length_0_conv length_sort)
  then have fav: "favoriteOf (tally ks) fallback = orDefault (fst h) fallback"
    by (simp add: favoriteOf_def h_def hd_def split: list.splits)
  have "h \<in> set (tally ks)"
    by (subst split) simp
  then have "fst h \<in> set ks"
    using keys_tally [of ks] by (metis image_eqI)
  with assms(2) have "fst h \<noteq> []"
    by auto
  with fav have "favoriteOf (tally ks) fallback = fst h"
    by (simp add: orDefault_def)
  then have "h = (favoriteOf (tally ks) fallback, snd h)"
    by simp
  with split have "tally ks = pre @ (favoriteOf (tally ks) fallback, snd h) # post"
    by simp
  moreover have "\<forall>e \<in> set pre. snd e < snd h"
    using pre by simp
  moreover have "\<forall>e \<in> set post. snd e \<le> snd h"
    using post by simp
  ultimately show ?thesis
    by blast
qed

lemma favoriteOf_mostFrequent:
  assumes "ks \<noteq> []" and "[] \<notin> set ks"
  shows "mostFrequent ks (favoriteOf (tally ks) fallback)"
proof -
  let ?fav = "favoriteOf (tally ks) fallback"
  from favoriteOf_tally [OF assms] obtain pre c post where
    split: "tally ks = pre @ (?fav, c) # post"
    and pre: "\<forall>e \<in> set pre. snd e < c" and post: "\<forall>e \<in> set post. snd e \<le> c"
    by blast
  have parts: "set (tally ks) = set pre \<union> {(?fav, c)} \<union> set post"
    by (subst split) auto
  then have "(?fav, c) \<in> set (tally ks)"
    by simp
  then have fav: "?fav \<in> set ks" and c: "c = count_list ks ?fav"
    using tally_entry by blast+
  have "count_list ks k \<le> c" if "k \<in> set ks" for k
  proof -
    from that have "k \<in> fst ` set (tally ks)"
      by (simp add: keys_tally)
    then obtain n where n: "(k, n) \<in> set (tally ks)"
      by auto
    then have "n = count_list ks k"
      using tally_entry by blast
    moreover from n parts pre post have "n \<le> c"
      by (auto simp: less_imp_le)
    ultimately show ?thesis by simp
  qed
  with fav c show ?thesis
    by (simp add: mostFrequent_def list_all_iff)
qed

lemma favoriteOf_firstMostFrequent:
  assumes "ks \<noteq> []" and "[] \<notin> set ks" and "\<forall>k \<in> set ks. \<not> isArrayIndex k"
  shows "firstMostFrequent ks (favoriteOf (tally ks) fallback)"
proof -
  let ?fav = "favoriteOf (tally ks) fallback"
  from favoriteOf_tally [OF assms(1,2)] obtain pre c post where
    split: "tally ks = pre @ (?fav, c) # post"
    and pre: "\<forall>e \<in> set pre. snd e < c"
    by blast
  have "(?fav, c) \<in> set (tally ks)"
    by (subst split) simp
  then have c: "c = count_list ks ?fav"
    using tally_entry by blast
  have pre_sub: "set pre \<subseteq> set (tally ks)"
    by (subst split) auto
  have "map fst (tally ks) = map fst pre @ ?fav # map fst post"
    by (subst split) simp
  from tally_order [OF assms(3) this] obtain i where
    i: "i < length ks" "ks ! i = ?fav" and before: "\<forall>j<i. ks ! j \<in> set (map fst pre)"
    by blast
  have "count_list ks k < count_list ks ?fav" if "k \<in> set (take i ks)" for k
  proof -
    from that obtain j where "j < i" "ks ! j = k"
      using i(1) by (auto simp: in_set_conv_nth)
    with before have "k \<in> fst ` set pre"
      by auto
    then obtain n where n: "(k, n) \<in> set pre"
      by auto
    with pre_sub have "n = count_list ks k"
      using tally_entry by blast
    with n pre c show ?thesis
      by auto
  qed
  moreover have "list_all (\<lambda>k. count_list ks k \<le> count_list ks ?fav) ks"
    using favoriteOf_mostFrequent [OF assms(1,2)] by (simp add: mostFrequent_def)
  ultimately show ?thesis
    using i by (auto simp: firstMostFrequent_def list_all_iff)
qed

lemma categoryKeys_nonempty: "[] \<notin> set (categoryKeys history)"
  by (auto simp: categoryKeys_def orDefault_def)

lemma sourceKeys_nonempty: "[] \<notin> set (sourceKeys history)"
  by (auto simp: sourceKeys_def orDefault_def)

lemma getStats_nonempty:
  assumes "history \<noteq> []"
  shows "categoriesBreakdown (getStats tz now (Some history)) = tally (categoryKeys history)"
    and "sourcesBreakdown (getStats tz now (Some history)) = tally (sourceKeys history)"
    and "favoriteCategory (getStats tz now (Some history)) =
           favoriteOf (tally (categoryKeys history)) ''general''"
    and "favoriteSource (getStats tz now (Some history)) =
           favoriteOf (tally (sourceKeys history)) ''Unknown''"
  using assms
  by (simp_all add: getStats_def getHistory_def Let_def categoriesBreakdownOf_tally
      sourcesBreakdownOf_tally)

text \<open>
  C9 (as amended). For every non-empty event log whose grouping keys are not names of
  properties inherited from \<^verbatim>\<open>Object.prototype\<close>: the tables count the events by category
  (\<^verbatim>\<open>'general'\<close> for an empty category) and by source (\<^verbatim>\<open>'Unknown'\<close> for an empty source);
  \<^verbatim>\<open>favoriteCategory\<close> and \<^verbatim>\<open>favoriteSource\<close> are keys with the highest count; and when none
  of the keys of a table is an array index (an integer-like string), a tie is broken by
  the first-encountered key in log order, with no further re-sorting.
\<close>

theorem favorites_by_count_then_first_seen:
  assumes "history \<noteq> []"
    and "list_all (\<lambda>k. k \<notin> set inheritedNames) (categoryKeys history @ sourceKeys history)"
  shows "map_of (categoriesBreakdown (getStats tz now (Some history))) k =
           (if k \<in> set (categoryKeys history) then Some (count_list (categoryKeys history) k)
            else None) \<and>
         map_of (sourcesBreakdown (getStats tz now (Some history))) k =
           (if k \<in> set (sourceKeys history) then Some (count_list (sourceKeys history) k)
            else None) \<and>
         mostFrequent (categoryKeys history) (favoriteCategory (getStats tz now (Some history))) \<and>
         mostFrequent (sourceKeys history) (favoriteSource (getStats tz now (Some history))) \<and>
         (list_all (\<lambda>k. \<not> isArrayIndex k) (categoryKeys history) \<longrightarrow>
            firstMostFrequent (categoryKeys history)
              (favoriteCategory (getStats tz now (Some history)))) \<and>
         (list_all (\<lambda>k. \<not> isArrayIndex k) (sourceKeys history) \<longrightarrow>
            firstMostFrequent (sourceKeys history)
              (favoriteSource (getStats tz now (Some history))))"
proof -
  have c: "categoryKeys history \<noteq> []" and s: "sourceKeys history \<noteq> []"
    using assms(1) by (simp_all add: categoryKeys_def sourceKeys_def)
  note stats = getStats_nonempty [OF assms(1), of tz now]
  have "mostFrequent (categoryKeys history) (favoriteCategory (getStats tz now (Some history)))"
    unfolding stats using c categoryKeys_nonempty by (rule favoriteOf_mostFrequent)
  moreover have "mostFrequent (sourceKeys history) (favoriteSource (getStats tz now (Some history)))"
    unfolding stats using s sourceKeys_nonempty by (rule favoriteOf_mostFrequent)
  moreover have "firstMostFrequent (categoryKeys history)
      (favoriteCategory (getStats tz now (Some history)))"
    if "list_all (\<lambda>k. \<not> isArrayIndex k) (categoryKeys history)"
    unfolding stats using c categoryKeys_nonempty that
    by (intro favoriteOf_firstMostFrequent) (simp_all add: list_all_iff)
  moreover have "firstMostFrequent (sourceKeys history)
      (favoriteSource (getStats tz now (Some history)))"
    if "list_all (\<lambda>k. \<not> isArrayIndex k) (sourceKeys history)"
    unfolding stats using s sourceKeys_nonempty that
    by (intro favoriteOf_firstMostFrequent) (simp_all add: list_all_iff)
  ultimately show ?thesis
    by (simp add: stats map_of_tally)
qed

theorem favorites_by_count_then_first_seen_witness:
  "[eventOf ''technology'' ''BBC News'', eventOf '''' ''CNN'', eventOf ''general'' ''''] \<noteq> [] \<and>
   list_all (\<lambda>k. k \<notin> set inheritedNames)
     (categoryKeys [eventOf ''technology'' ''BBC News'', eventOf '''' ''CNN'', eventOf ''general'' ''''] @
      sourceKeys [eventOf ''technology'' ''BBC News'', eventOf '''' ''CNN'', eventOf ''general'' '''']) \<and>
   list_all (\<lambda>k. \<not> isArrayIndex k)
     (categoryKeys [eventOf ''technology'' ''BBC News'', eventOf '''' ''CNN'', eventOf ''general'' '''']) \<and>
   map_of (categoriesBreakdown (getStats (\<lambda>t. 0) 2000
     (Some [eventOf ''technology'' ''BBC News'', eventOf '''' ''CNN'', eventOf ''general'' ''''])))
     ''general'' = Some 2 \<and>
   firstMostFrequent
     (categoryKeys [eventOf ''technology'' ''BBC News'', eventOf '''' ''CNN'', eventOf ''general'' ''''])
     (favoriteCategory (getStats (\<lambda>t. 0) 2000
        (Some [eventOf ''technology'' ''BBC News'', eventOf '''' ''CNN'', eventOf ''general'' ''''])))"
proof -
  let ?h = "[eventOf ''technology'' ''BBC News'', eventOf '''' ''CNN'', eventOf ''general'' '''']"
  have keys: "categoryKeys ?h = [''technology'', ''general'', ''general'']"
    "sourceKeys ?h = [''BBC News'', ''CNN'', ''Unknown'']"
    by (simp_all add: categoryKeys_def sourceKeys_def eventOf_def orDefault_def)
  have nonempty: "?h \<noteq> []"
    by simp
  have inherited: "list_all (\<lambda>k. k \<notin> set inheritedNames) (categoryKeys ?h @ sourceKeys ?h)"
    unfolding keys by (simp add: inheritedNames_def)
  have plain: "list_all (\<lambda>k. \<not> isArrayIndex k) (categoryKeys ?h)"
    unfolding keys by (simp add: isArrayIndex_def isDigit_def)
  from favorites_by_count_then_first_seen [OF nonempty inherited, of "\<lambda>t. 0" 2000 "''general''"] plain
  have "map_of (categoriesBreakdown (getStats (\<lambda>t. 0) 2000 (Some ?h))) ''general'' =
          (if ''general'' \<in> set (categoryKeys ?h)
           then Some (count_list (categoryKeys ?h) ''general'') else None)"
    and "firstMostFrequent (categoryKeys ?h) (favoriteCategory (getStats (\<lambda>t. 0) 2000 (Some ?h)))"
    by blast+
  moreover have "(if ''general'' \<in> set (categoryKeys ?h)
           then Some (count_list (categoryKeys ?h) ''general'') else None) = Some 2"
    unfolding keys by simp
  ultimately show ?thesis
    using nonempty inherited plain by simp
qed

text \<open>The claim as first stated breaks ties by log order for every log. In a log whose
  first event has the source \<^verbatim>\<open>'7'\<close> and whose second event has the source \<^verbatim>\<open>'3'\<close>, both
  sources have the count 1 and \<^verbatim>\<open>'7'\<close> is encountered first, but the table enumerates the
  array index \<^verbatim>\<open>'3'\<close> before \<^verbatim>\<open>'7'\<close>, and \<^verbatim>\<open>favoriteSource\<close> is \<^verbatim>\<open>'3'\<close>.\<close>

theorem favoriteSource_integer_like_keys:
  "sourceKeys [eventOf ''general'' ''7'', eventOf ''general'' ''3''] = [''7'', ''3''] \<and>
   sourcesBreakdown (getStats (\<lambda>t. 0) 2000
     (Some [eventOf ''general'' ''7'', eventOf ''general'' ''3''])) = [(''3'', 1), (''7'', 1)] \<and>
   favoriteSource (getStats (\<lambda>t. 0) 2000
     (Some [eventOf ''general'' ''7'', eventOf ''general'' ''3''])) = ''3''"
  by (simp add: getStats_def getHistory_def sourcesBreakdownOf_def favoriteOf_def increment_def
      setProperty_def isArrayIndex_def isDigit_def stringToNat_def orDefault_def eventOf_def
      sourceKeys_def Let_def)


end
